theory Spec2Isabelle
  imports Main "HOL-Library.Multiset" "HOL-Library.AList"
begin

section \<open>Data model\<close>

text \<open>
  The prover library works on a 10x10 board. A ship is \<open>{size, x, y, horizontal}\<close>, a board
  is the ship list together with the cell grid \<open>number[][]\<close> (0 empty, 1 ship). Numbers are
  modelled as integers. A shot coordinate \<open>{x, y}\<close> is the pair \<open>(x, y)\<close>.
\<close>

record Ship =
  size :: int
  x :: int
  y :: int
  horizontal :: bool

type_synonym grid = "int list list"

record Board =
  ships :: "Ship list"
  grid :: grid

record ShotMap =
  hits :: "(int \<times> int) list"
  misses :: "(int \<times> int) list"

definition SHIP_SIZES :: "int list" where
  "SHIP_SIZES = [5, 4, 3, 3, 2]"

definition BOARD_SIZE :: int where
  "BOARD_SIZE = 10"

text \<open>
  Every \<open>throw\<close> of the source is a constructor. \<open>TypeError\<close> is what the runtime raises
  when a property of \<open>undefined\<close> is read (\<open>grid[y][x]\<close> with no row \<open>y\<close>);
  \<open>Bytes32TooLong\<close> is raised by the byte-string formatter of the hashing library,
  \<open>ProofFailed\<close> stands for any failure of the external proving service.
\<close>

datatype error =
    ShotOutOfBounds int int
  | ClaimMismatch bool bool
  | NotAllSunk
  | PlacementOutOfBounds int int
  | ShipOverlap int int
  | InvalidNumberOfShips nat
  | InvalidShipsOfSize int
  | GridMismatch
  | TypeError
  | Bytes32TooLong
  | ProofFailed

subsection \<open>Array reads\<close>

text \<open>
  \<open>xs[i]\<close> is \<open>undefined\<close> (here \<open>None\<close>) outside the array, also for a negative index.
  \<open>grid[y][x]\<close> throws when the row is missing and is \<open>undefined\<close> when only the cell is.
\<close>

definition js_index :: "'a list \<Rightarrow> int \<Rightarrow> 'a option" where
  "js_index xs i = (if 0 \<le> i \<and> i < int (length xs) then Some (xs ! nat i) else None)"

definition grid_get :: "grid \<Rightarrow> int \<Rightarrow> int \<Rightarrow> error + int option" where
  "grid_get g cy cx = (case js_index g cy of None \<Rightarrow> Inl TypeError | Some row \<Rightarrow> Inr (js_index row cx))"

text \<open>\<open>grid[y][x] = v\<close>, used by the source only after a read of the same cell succeeded.\<close>

definition grid_set :: "grid \<Rightarrow> int \<Rightarrow> int \<Rightarrow> int \<Rightarrow> grid" where
  "grid_set g cy cx v = g[nat cy := (g ! nat cy)[nat cx := v]]"

text \<open>\<open>grid.flat().filter(cell => cell === 1).length\<close>\<close>

definition occupied :: "grid \<Rightarrow> nat" where
  "occupied g = length (filter (\<lambda>cell. cell = 1) (concat g))"

subsection \<open>Array writes\<close>

text \<open>
  \<open>arr[i] = v\<close> on an array that may grow: an index past the end extends the array and
  leaves empty slots (\<open>None\<close>) in between; a negative index sets a property and leaves the
  elements as they are.
\<close>

definition js_array_set :: "'a option list \<Rightarrow> int \<Rightarrow> 'a \<Rightarrow> 'a option list" where
  "js_array_set arr i v =
     (if i < 0 then arr
      else if nat i < length arr then arr[nat i := Some v]
      else arr @ replicate (nat i - length arr) None @ [Some v])"

subsection \<open>Number to string, \<open>join('')\<close>\<close>

definition digitChar :: "nat \<Rightarrow> char" where
  "digitChar d = char_of (48 + d)"

fun natToString :: "nat \<Rightarrow> string" where
  "natToString n = (if n < 10 then [digitChar n] else natToString (n div 10) @ [digitChar (n mod 10)])"

declare natToString.simps [simp del]

definition numberToString :: "int \<Rightarrow> string" where
  "numberToString n = (if n < 0 then CHR ''-'' # natToString (nat (- n)) else natToString (nat n))"

text \<open>\<open>join('')\<close> of an array of numbers; an empty slot contributes nothing.\<close>

definition joinNumbers :: "int option list \<Rightarrow> string" where
  "joinNumbers arr = concat (map (\<lambda>e. case e of None \<Rightarrow> [] | Some n \<Rightarrow> numberToString n) arr)"

section \<open>The hashing library\<close>

text \<open>
  The source calls functions of the \<open>ethers\<close> utilities, which are not part of the
  repository. They are modelled from the library's documented behaviour. A string is
  modelled by its UTF-8 bytes, so \<open>toUtf8Bytes\<close> is the identity.
  \<open>formatBytes32String\<close> rejects a text longer than 31 bytes and otherwise pads it with
  zero bytes to 32. \<open>solidityPack(['string', 'bytes32'], [s, b])\<close> is the bytes of \<open>s\<close>
  followed by \<open>b\<close>. \<open>hexlify\<close> writes \<open>0x\<close> and then two lower-case hexadecimal digits for
  every byte. A digest of \<open>keccak256\<close> is represented by the bytes it was computed
  from: the hash is taken to be free of collisions, and nothing else about it is used.
  The random source \<open>randomBytes\<close> is a parameter of the function that calls it.
\<close>

type_synonym bytes = "char list"

datatype digest = Keccak256 bytes

definition toUtf8Bytes :: "string \<Rightarrow> bytes" where
  "toUtf8Bytes text = text"

definition formatBytes32String :: "string \<Rightarrow> error + bytes" where
  "formatBytes32String text =
     (let bs = toUtf8Bytes text
      in if length bs > 31 then Inl Bytes32TooLong
         else Inr (take 32 (bs @ replicate 32 (CHR 0x00))))"

definition solidityPack :: "string \<Rightarrow> bytes \<Rightarrow> bytes" where
  "solidityPack s b = toUtf8Bytes s @ b"

definition hexDigit :: "nat \<Rightarrow> char" where
  "hexDigit d = ''0123456789abcdef'' ! d"

definition hexlify :: "bytes \<Rightarrow> string" where
  "hexlify bs =
     ''0x'' @ concat (map (\<lambda>b. [hexDigit ((of_char b :: nat) div 16), hexDigit ((of_char b :: nat) mod 16)]) bs)"

section \<open>Board commitment (boardProver)\<close>

text \<open>\<open>board.grid.flat().join('')\<close>\<close>

definition serializeBoard :: "Board \<Rightarrow> string" where
  "serializeBoard board = concat (map numberToString (concat (grid board)))"

definition generateBoardCommitment :: "Board \<Rightarrow> string \<Rightarrow> error + digest" where
  "generateBoardCommitment board slt =
     (let boardString = serializeBoard board
      in (case formatBytes32String slt of
            Inl e \<Rightarrow> Inl e
          | Inr salt32 \<Rightarrow> Inr (Keccak256 (solidityPack boardString salt32))))"

text \<open>\<open>hexlify(randomBytes(16)).slice(2)\<close>: the salt that the page generates for a board.\<close>

definition generateSalt :: "(nat \<Rightarrow> bytes) \<Rightarrow> string" where
  "generateSalt randomBytes = drop 2 (hexlify (randomBytes 16))"

text \<open>
  The conversion of the grid to the 100 circuit cells, shared by the three proof
  generators: \<open>boardCells[y * 10 + x] = 1\<close> for every \<open>grid[y][x] === 1\<close>, rows outside,
  columns inside.
\<close>

fun fillCells :: "grid \<Rightarrow> (nat \<times> nat) list \<Rightarrow> int list \<Rightarrow> error + int list" where
  "fillCells g [] cells = Inr cells"
| "fillCells g ((cy, cx) # rest) cells =
     (case grid_get g (int cy) (int cx) of
        Inl e \<Rightarrow> Inl e
      | Inr v \<Rightarrow> fillCells g rest (if v = Some 1 then cells[cy * 10 + cx := 1] else cells))"

definition boardCells :: "Board \<Rightarrow> error + int list" where
  "boardCells board = fillCells (grid board) (List.product [0..<10] [0..<10]) (replicate 100 0)"

section \<open>Board construction and validation (boardProver)\<close>

definition emptyGrid :: grid where
  "emptyGrid = replicate 10 (replicate 10 0)"

text \<open>The cell of a ship at loop index \<open>i\<close>: \<open>(x + i, y)\<close> when horizontal, else \<open>(x, y + i)\<close>.\<close>

definition shipCell :: "Ship \<Rightarrow> int \<Rightarrow> int \<times> int" where
  "shipCell ship i =
     (if horizontal ship then (x ship + i, y ship) else (x ship, y ship + i))"

text \<open>
  The body of the inner loop of \<open>createBoard\<close>. Only the upper bounds are tested. A negative
  row index reads a property of \<open>undefined\<close> and throws; a negative column index reads
  \<open>undefined\<close>, which is not \<open>0\<close>, and is reported as an overlap.
\<close>

fun placeCell :: "grid \<Rightarrow> int \<times> int \<Rightarrow> error + grid" where
  "placeCell g (cx, cy) =
     (if cx \<ge> BOARD_SIZE \<or> cy \<ge> BOARD_SIZE then Inl (PlacementOutOfBounds cx cy)
      else (case grid_get g cy cx of
              Inl e \<Rightarrow> Inl e
            | Inr v \<Rightarrow> if v \<noteq> Some 0 then Inl (ShipOverlap cx cy)
                       else Inr (grid_set g cy cx 1)))"

text \<open>\<open>for (let i = 0; i < ship.size; i++)\<close>, entered at index \<open>i\<close>.\<close>

function placeShipFrom :: "Ship \<Rightarrow> int \<Rightarrow> grid \<Rightarrow> error + grid" where
  "placeShipFrom ship i g =
     (if i < size ship then
        (case placeCell g (shipCell ship i) of
           Inl e \<Rightarrow> Inl e
         | Inr g' \<Rightarrow> placeShipFrom ship (i + 1) g')
      else Inr g)"
  by pat_completeness auto
termination
  by (relation "measure (\<lambda>(ship, i, g). nat (size ship - i))") auto

declare placeShipFrom.simps [simp del]

text \<open>\<open>for (const ship of ships)\<close>\<close>

fun placeShips :: "grid \<Rightarrow> Ship list \<Rightarrow> error + grid" where
  "placeShips g [] = Inr g"
| "placeShips g (ship # rest) =
     (case placeShipFrom ship 0 g of Inl e \<Rightarrow> Inl e | Inr g' \<Rightarrow> placeShips g' rest)"

definition createBoard :: "Ship list \<Rightarrow> error + Board" where
  "createBoard ss =
     (case placeShips emptyGrid ss of
        Inl e \<Rightarrow> Inl e
      | Inr g \<Rightarrow> Inr \<lparr>ships = ss, grid = g\<rparr>)"

text \<open>
  \<open>Map<number, number>\<close> as an association list in insertion order: \<open>AList.update\<close>
  overwrites a present key in place and appends a new one. \<open>m.get(k) || 0\<close> is \<open>getOr0\<close>.
\<close>

definition getOr0 :: "(int \<times> nat) list \<Rightarrow> int \<Rightarrow> nat" where
  "getOr0 m k = (case map_of m k of None \<Rightarrow> 0 | Some c \<Rightarrow> c)"

fun countSizes :: "int list \<Rightarrow> (int \<times> nat) list \<Rightarrow> (int \<times> nat) list" where
  "countSizes [] m = m"
| "countSizes (k # ks) m = countSizes ks (AList.update k (getOr0 m k + 1) m)"

definition validateBoard :: "Board \<Rightarrow> error + bool" where
  "validateBoard board =
     (if length (ships board) \<noteq> length SHIP_SIZES
      then Inl (InvalidNumberOfShips (length (ships board)))
      else
        let shipSizeCount = countSizes (map size (ships board)) [];
            expectedCounts = countSizes SHIP_SIZES []
        in (case find (\<lambda>(sz, cnt). getOr0 shipSizeCount sz \<noteq> cnt) expectedCounts of
              Some (sz, cnt) \<Rightarrow> Inl (InvalidShipsOfSize sz)
            | None \<Rightarrow>
                (case createBoard (ships board) of
                   Inl e \<Rightarrow> Inl e
                 | Inr reconstructedBoard \<Rightarrow>
                     if occupied (grid board) \<noteq> occupied (grid reconstructedBoard)
                     then Inl GridMismatch
                     else Inr True)))"

section \<open>Outcome checks (shotProver)\<close>

definition checkShotResult :: "Board \<Rightarrow> int \<Rightarrow> int \<Rightarrow> error + bool" where
  "checkShotResult board sx sy =
     (if sx < 0 \<or> sx \<ge> 10 \<or> sy < 0 \<or> sy \<ge> 10 then Inl (ShotOutOfBounds sx sy)
      else (case grid_get (grid board) sy sx of
              Inl e \<Rightarrow> Inl e
            | Inr v \<Rightarrow> Inr (v = Some 1)))"

definition checkAllShipsSunk :: "Board \<Rightarrow> ShotMap \<Rightarrow> bool" where
  "checkAllShipsSunk board shotMap =
     (let totalShipCells = occupied (grid board);
          totalHits = length (hits shotMap)
      in totalHits = totalShipCells)"

section \<open>Shot map (shotProver)\<close>

definition createEmptyShotMap :: ShotMap where
  "createEmptyShotMap = \<lparr>hits = [], misses = []\<rparr>"

definition addShot :: "ShotMap \<Rightarrow> int \<Rightarrow> int \<Rightarrow> bool \<Rightarrow> ShotMap" where
  "addShot shotMap sx sy isHit =
     (if isHit then \<lparr>hits = hits shotMap @ [(sx, sy)], misses = misses shotMap\<rparr>
      else \<lparr>hits = hits shotMap, misses = misses shotMap @ [(sx, sy)]\<rparr>)"

section \<open>Claim builders (shotProver)\<close>




record GameEndInput =
  end_board_cells :: "int list"
  shot_history :: "int option list"
  end_salt :: string
  end_board_commitment :: digest
  shot_history_hash :: digest

text \<open>\<open>for (const hit of shotMap.hits) shotHistory[hit.y * 10 + hit.x] = 1\<close>\<close>

fun markShots :: "int option list \<Rightarrow> (int \<times> int) list \<Rightarrow> int option list" where
  "markShots shotHistory [] = shotHistory"
| "markShots shotHistory ((hx, hy) # rest) = markShots (js_array_set shotHistory (hy * 10 + hx) 1) rest"

definition shotHistoryOf :: "ShotMap \<Rightarrow> int option list" where
  "shotHistoryOf shotMap = markShots (replicate 100 (Some 0)) (hits shotMap)"

definition gameEndInput :: "Board \<Rightarrow> ShotMap \<Rightarrow> string \<Rightarrow> error + GameEndInput" where
  "gameEndInput board shotMap slt =
     (if \<not> checkAllShipsSunk board shotMap then Inl NotAllSunk
      else (case boardCells board of
              Inl e \<Rightarrow> Inl e
            | Inr cells \<Rightarrow>
                (case generateBoardCommitment board slt of
                   Inl e \<Rightarrow> Inl e
                 | Inr boardCommitment \<Rightarrow>
                     let shotHistory = shotHistoryOf shotMap;
                         shotHistoryStr = joinNumbers shotHistory;
                         shotHistoryHash = Keccak256 (toUtf8Bytes shotHistoryStr)
                     in Inr \<lparr>end_board_cells = cells, shot_history = shotHistory,
                             end_salt = slt, end_board_commitment = boardCommitment,
                             shot_history_hash = shotHistoryHash\<rparr>)))"

definition generateGameEndProof ::
  "(GameEndInput \<Rightarrow> string option) \<Rightarrow> Board \<Rightarrow> ShotMap \<Rightarrow> string \<Rightarrow> error + string" where
  "generateGameEndProof generateProof board shotMap slt =
     (case gameEndInput board shotMap slt of
        Inl e \<Rightarrow> Inl e
      | Inr input \<Rightarrow>
          (case generateProof input of None \<Rightarrow> Inl ProofFailed | Some proof \<Rightarrow> Inr proof))"

section \<open>Interactive and random placement (board-utils, ShipPlacement, boardProver)\<close>

datatype ShipType = CARRIER | BATTLESHIP | CRUISER | SUBMARINE | DESTROYER

fun shipTypeValue :: "ShipType \<Rightarrow> int" where
  "shipTypeValue CARRIER = 5"
| "shipTypeValue BATTLESHIP = 4"
| "shipTypeValue CRUISER = 3"
| "shipTypeValue SUBMARINE = 2"
| "shipTypeValue DESTROYER = 1"

text \<open>The initial \<open>shipsToPlace\<close> of the placement component; a ship gets the enum value as its size.\<close>

definition shipsToPlace :: "ShipType list" where
  "shipsToPlace = [CARRIER, BATTLESHIP, CRUISER, SUBMARINE, DESTROYER]"

text \<open>The nine cells around and including a cell, in the order of the loops over \<open>dx\<close> and \<open>dy\<close>.\<close>

definition neighbourhood :: "int \<times> int \<Rightarrow> (int \<times> int) list" where
  "neighbourhood c = concat (map (\<lambda>dx. map (\<lambda>dy. (fst c + dx, snd c + dy)) [-1..1]) [-1..1])"

text \<open>
  The scan of \<open>isValidPlacement\<close> over the cells to check: cells off the board are skipped,
  the first cell that holds a ship makes the result \<open>false\<close>.
\<close>

fun scanNoShip :: "grid \<Rightarrow> (int \<times> int) list \<Rightarrow> error + bool" where
  "scanNoShip g [] = Inr True"
| "scanNoShip g ((checkX, checkY) # rest) =
     (if checkX < 0 \<or> checkX \<ge> BOARD_SIZE \<or> checkY < 0 \<or> checkY \<ge> BOARD_SIZE
      then scanNoShip g rest
      else (case grid_get g checkY checkX of
              Inl e \<Rightarrow> Inl e
            | Inr v \<Rightarrow> if v = Some 1 then Inr False else scanNoShip g rest))"

definition isValidPlacement :: "Board \<Rightarrow> Ship \<Rightarrow> error + bool" where
  "isValidPlacement board ship =
     (if (if horizontal ship
          then x ship < 0 \<or> x ship + size ship > BOARD_SIZE \<or> y ship < 0 \<or> y ship \<ge> BOARD_SIZE
          else x ship < 0 \<or> x ship \<ge> BOARD_SIZE \<or> y ship < 0 \<or> y ship + size ship > BOARD_SIZE)
      then Inr False
      else scanNoShip (grid board)
             (concat (map (\<lambda>i. neighbourhood (shipCell ship i)) [0..size ship - 1])))"

text \<open>
  The validity test inside the placement loop of \<open>generateRandomBoard\<close>, for a candidate
  ship of size \<open>sz\<close> at \<open>(px, py)\<close>: every cell of the ship and of the ring around it that
  lies on the board must be \<open>0\<close> in the temporary grid.
\<close>

definition haloCells :: "int \<Rightarrow> int \<Rightarrow> int \<Rightarrow> bool \<Rightarrow> (int \<times> int) list" where
  "haloCells sz px py hz =
     concat (map (\<lambda>i. map (\<lambda>j. if hz then (px + i, py + j) else (px + j, py + i)) [-1..1]) [-1..sz])"

fun scanAllZero :: "grid \<Rightarrow> (int \<times> int) list \<Rightarrow> error + bool" where
  "scanAllZero g [] = Inr True"
| "scanAllZero g ((checkX, checkY) # rest) =
     (if checkX < 0 \<or> checkX \<ge> BOARD_SIZE \<or> checkY < 0 \<or> checkY \<ge> BOARD_SIZE
      then scanAllZero g rest
      else (case grid_get g checkY checkX of
              Inl e \<Rightarrow> Inl e
            | Inr v \<Rightarrow> if v \<noteq> Some 0 then Inr False else scanAllZero g rest))"

definition randomPlacementValid :: "grid \<Rightarrow> int \<Rightarrow> int \<Rightarrow> int \<Rightarrow> bool \<Rightarrow> error + bool" where
  "randomPlacementValid tempGrid sz px py hz = scanAllZero tempGrid (haloCells sz px py hz)"

section \<open>Game page: phases and events\<close>

datatype GamePhase =
    CONNECTING
  | WAITING_FOR_OPPONENT
  | PLACING_SHIPS
  | WAITING_FOR_OPPONENT_BOARD
  | PLAYING
  | GAME_OVER

text \<open>The numeric value of the enum member, which is also its place in the phase order.\<close>

fun phaseValue :: "GamePhase \<Rightarrow> nat" where
  "phaseValue CONNECTING = 0"
| "phaseValue WAITING_FOR_OPPONENT = 1"
| "phaseValue PLACING_SHIPS = 2"
| "phaseValue WAITING_FOR_OPPONENT_BOARD = 3"
| "phaseValue PLAYING = 4"
| "phaseValue GAME_OVER = 5"

text \<open>
  The events the page switches on, with the fields it reads; every other event type falls
  through the switch.
\<close>

datatype GameEvent =
    board_submitted string bool
  | shot_fired string int int
  | shot_result string int int bool
  | game_over string
  | other_event

record PageState =
  gamePhase :: GamePhase
  winner :: "string option"
  shotsAtPlayer :: ShotMap
  shotsAtOpponent :: ShotMap
  isMakingShot :: bool
  isProcessingShot :: bool
  statusMessage :: string

text \<open>
  \<open>toLowerCase\<close> for strings of ASCII characters, which account addresses are: the
  capitals A to Z change, all else stays. Capitals outside ASCII, which the runtime also
  folds, are not folded here.
\<close>

definition toLowerCase :: "string \<Rightarrow> string" where
  "toLowerCase str =
     map (\<lambda>c. if 65 \<le> (of_char c :: nat) \<and> (of_char c :: nat) \<le> 90
               then char_of ((of_char c :: nat) + 32) else c) str"

text \<open>
  \<open>player.toLowerCase() === account?.toLowerCase()\<close>: with no account the right side is
  \<open>undefined\<close> and the comparison is false.
\<close>

definition isAccount :: "string option \<Rightarrow> string \<Rightarrow> bool" where
  "isAccount account player =
     (case account of None \<Rightarrow> False | Some a \<Rightarrow> toLowerCase player = toLowerCase a)"

text \<open>
  The switch of the event effect. For an opponent's \<open>shot_fired\<close> it also starts the
  asynchronous \<open>handleOpponentShot\<close>, whose later writes are not part of this step.
\<close>

fun applyEvent :: "string option \<Rightarrow> PageState \<Rightarrow> GameEvent \<Rightarrow> PageState" where
  "applyEvent account st (board_submitted player allBoardsSubmitted) =
     (if isAccount account player
      then st\<lparr>gamePhase := WAITING_FOR_OPPONENT_BOARD,
              statusMessage := ''Waiting for opponent to place ships...''\<rparr>
      else if allBoardsSubmitted
      then st\<lparr>gamePhase := PLAYING, statusMessage := ''Game started - Get ready!''\<rparr>
      else st)"
| "applyEvent account st (shot_fired player ex ey) =
     (if \<not> isAccount account player
      then st\<lparr>isProcessingShot := True, statusMessage := ''Processing opponent shot...''\<rparr>
      else st)"
| "applyEvent account st (shot_result player ex ey isHit) =
     (if isAccount account player
      then st\<lparr>shotsAtOpponent := addShot (shotsAtOpponent st) ex ey isHit, isMakingShot := False\<rparr>
      else st\<lparr>shotsAtPlayer := addShot (shotsAtPlayer st) ex ey isHit, isProcessingShot := False\<rparr>)"
| "applyEvent account st (game_over w) =
     st\<lparr>gamePhase := GAME_OVER, winner := Some w,
        statusMessage := (if isAccount account w then ''You won the game!'' else ''You lost the game'')\<rparr>"
| "applyEvent account st other_event = st"

text \<open>The effect runs on the event list and looks at its last element only.\<close>

definition processEvents :: "string option \<Rightarrow> PageState \<Rightarrow> GameEvent list \<Rightarrow> PageState" where
  "processEvents account st events = (if events = [] then st else applyEvent account st (last events))"

definition initialPageState :: PageState where
  "initialPageState =
     \<lparr>gamePhase = CONNECTING, winner = None,
      shotsAtPlayer = createEmptyShotMap, shotsAtOpponent = createEmptyShotMap,
      isMakingShot = False, isProcessingShot = False,
      statusMessage = ''Connecting to game...''\<rparr>"

section \<open>Predicates used in the statements\<close>

text \<open>The shot maps that \<open>addShot\<close> builds from the empty one.\<close>

inductive reachable :: "ShotMap \<Rightarrow> bool" where
  reach_empty: "reachable createEmptyShotMap"
| reach_shot: "reachable m \<Longrightarrow> reachable (addShot m sx sy isHit)"

text \<open>The invariant of the data model: no coordinate in both lists, none twice in a list.\<close>

definition shotmap_inv :: "ShotMap \<Rightarrow> bool" where
  "shotmap_inv m \<longleftrightarrow> distinct (hits m @ misses m)"

text \<open>A grid of ten rows of ten cells, a cell on the board, the value of a cell.\<close>

definition wf10 :: "grid \<Rightarrow> bool" where
  "wf10 g \<longleftrightarrow> length g = 10 \<and> (\<forall>row \<in> set g. length row = 10)"

fun inb :: "int \<times> int \<Rightarrow> bool" where
  "inb (cx, cy) \<longleftrightarrow> 0 \<le> cx \<and> cx < 10 \<and> 0 \<le> cy \<and> cy < 10"

fun cellv :: "grid \<Rightarrow> int \<times> int \<Rightarrow> int" where
  "cellv g (cx, cy) = g ! nat cy ! nat cx"

text \<open>The cells the loops of \<open>createBoard\<close> visit, ship by ship, and the loop body run over a list of cells.\<close>

definition shipCells :: "Ship \<Rightarrow> (int \<times> int) list" where
  "shipCells ship = map (shipCell ship) [0..size ship - 1]"

fun placeCells :: "grid \<Rightarrow> (int \<times> int) list \<Rightarrow> error + grid" where
  "placeCells g [] = Inr g"
| "placeCells g (c # cs) = (case placeCell g c of Inl e \<Rightarrow> Inl e | Inr g' \<Rightarrow> placeCells g' cs)"

text \<open>
  The footprint of a ship, a ship that lies on the board, and a valid ship set: the size
  multiset of \<open>SHIP_SIZES\<close>, every ship on the board, no cell used twice.
\<close>

fun covers :: "Ship \<Rightarrow> int \<times> int \<Rightarrow> bool" where
  "covers ship (cx, cy) \<longleftrightarrow>
     (if horizontal ship then cy = y ship \<and> x ship \<le> cx \<and> cx < x ship + size ship
      else cx = x ship \<and> y ship \<le> cy \<and> cy < y ship + size ship)"

definition fully_in_bounds :: "Ship \<Rightarrow> bool" where
  "fully_in_bounds ship \<longleftrightarrow>
     (if horizontal ship
      then 0 \<le> x ship \<and> x ship + size ship \<le> 10 \<and> 0 \<le> y ship \<and> y ship < 10
      else 0 \<le> x ship \<and> x ship < 10 \<and> 0 \<le> y ship \<and> y ship + size ship \<le> 10)"

definition valid_ship_set :: "Ship list \<Rightarrow> bool" where
  "valid_ship_set ss \<longleftrightarrow>
     mset (map size ss) = mset SHIP_SIZES
     \<and> list_all fully_in_bounds ss
     \<and> distinct (concat (map shipCells ss))"

text \<open>Two different cells that are neighbours, also diagonally; two ships with such cells.\<close>

fun adjacent8 :: "int \<times> int \<Rightarrow> int \<times> int \<Rightarrow> bool" where
  "adjacent8 (ax, ay) (bx, by) \<longleftrightarrow> (ax, ay) \<noteq> (bx, by) \<and> \<bar>ax - bx\<bar> \<le> 1 \<and> \<bar>ay - by\<bar> \<le> 1"

definition touching :: "Ship \<Rightarrow> Ship \<Rightarrow> bool" where
  "touching s1 s2 \<longleftrightarrow> list_ex (\<lambda>c. list_ex (adjacent8 c) (shipCells s2)) (shipCells s1)"

text \<open>The value read at a cell, as \<open>grid[cy][cx]\<close> reads it.\<close>

fun readCell :: "grid \<Rightarrow> int \<times> int \<Rightarrow> error + int option" where
  "readCell g (cx, cy) = grid_get g cy cx"

text \<open>The character of a cell in the serialized board, and a grid whose cells are all 0 or 1.\<close>

definition bitChar :: "int \<Rightarrow> char" where
  "bitChar cell = (if cell = 1 then CHR ''1'' else CHR ''0'')"

definition bits :: "grid \<Rightarrow> bool" where
  "bits g \<longleftrightarrow> (\<forall>row \<in> set g. \<forall>cell \<in> set row. cell = 0 \<or> cell = 1)"

section \<open>Concrete inputs\<close>

definition fleet0 :: "Ship list" where
  "fleet0 = [\<lparr>size = 5, x = 0, y = 0, horizontal = True\<rparr>,
             \<lparr>size = 4, x = 0, y = 2, horizontal = True\<rparr>,
             \<lparr>size = 3, x = 0, y = 4, horizontal = False\<rparr>,
             \<lparr>size = 3, x = 5, y = 5, horizontal = True\<rparr>,
             \<lparr>size = 2, x = 9, y = 8, horizontal = False\<rparr>]"

definition board0 :: Board where
  "board0 = \<lparr>ships = fleet0, grid =
     [[1, 1, 1, 1, 1, 0, 0, 0, 0, 0],
      [0, 0, 0, 0, 0, 0, 0, 0, 0, 0],
      [1, 1, 1, 1, 0, 0, 0, 0, 0, 0],
      [0, 0, 0, 0, 0, 0, 0, 0, 0, 0],
      [1, 0, 0, 0, 0, 0, 0, 0, 0, 0],
      [1, 0, 0, 0, 0, 1, 1, 1, 0, 0],
      [1, 0, 0, 0, 0, 0, 0, 0, 0, 0],
      [0, 0, 0, 0, 0, 0, 0, 0, 0, 0],
      [0, 0, 0, 0, 0, 0, 0, 0, 0, 1],
      [0, 0, 0, 0, 0, 0, 0, 0, 0, 1]]\<rparr>"

text \<open>Sixteen, then all seventeen ship cells of \<open>board0\<close> recorded as hits.\<close>

definition shots16 :: ShotMap where
  "shots16 = \<lparr>hits = [(0, 0), (1, 0), (2, 0), (3, 0), (4, 0), (0, 2), (1, 2), (2, 2), (3, 2),
                       (0, 4), (0, 5), (0, 6), (5, 5), (6, 5), (7, 5), (9, 8)],
              misses = [(5, 0)]\<rparr>"

definition shots17 :: ShotMap where
  "shots17 = addShot shots16 9 9 True"

text \<open>A random source that returns the bytes 0, 1, 2 and so on, and the salt generated from it.\<close>

definition countingBytes :: "nat \<Rightarrow> bytes" where
  "countingBytes n = map char_of [0..<n]"

definition salt0 :: string where
  "salt0 = ''000102030405060708090a0b0c0d0e0f''"

text \<open>A fleet of the five sizes the placement component offers, and its board.\<close>

definition placementFleet :: "Ship list" where
  "placementFleet = [\<lparr>size = 5, x = 0, y = 0, horizontal = True\<rparr>,
             \<lparr>size = 4, x = 0, y = 2, horizontal = True\<rparr>,
             \<lparr>size = 3, x = 0, y = 4, horizontal = False\<rparr>,
             \<lparr>size = 2, x = 5, y = 5, horizontal = True\<rparr>,
             \<lparr>size = 1, x = 9, y = 8, horizontal = False\<rparr>]"

definition placementBoard :: Board where
  "placementBoard = \<lparr>ships = placementFleet, grid =
     [[1, 1, 1, 1, 1, 0, 0, 0, 0, 0],
      [0, 0, 0, 0, 0, 0, 0, 0, 0, 0],
      [1, 1, 1, 1, 0, 0, 0, 0, 0, 0],
      [0, 0, 0, 0, 0, 0, 0, 0, 0, 0],
      [1, 0, 0, 0, 0, 0, 0, 0, 0, 0],
      [1, 0, 0, 0, 0, 1, 1, 0, 0, 0],
      [1, 0, 0, 0, 0, 0, 0, 0, 0, 0],
      [0, 0, 0, 0, 0, 0, 0, 0, 0, 0],
      [0, 0, 0, 0, 0, 0, 0, 0, 0, 1],
      [0, 0, 0, 0, 0, 0, 0, 0, 0, 0]]\<rparr>"

text \<open>
  A fleet of the standard sizes in which the first ship touches the second and the third,
  its board, and the board that holds the first ship only.
\<close>

definition touchingFleet :: "Ship list" where
  "touchingFleet = [\<lparr>size = 5, x = 0, y = 0, horizontal = True\<rparr>,
             \<lparr>size = 4, x = 0, y = 1, horizontal = True\<rparr>,
             \<lparr>size = 3, x = 5, y = 1, horizontal = True\<rparr>,
             \<lparr>size = 3, x = 0, y = 5, horizontal = False\<rparr>,
             \<lparr>size = 2, x = 1, y = 8, horizontal = True\<rparr>]"

definition touchingBoard :: Board where
  "touchingBoard = \<lparr>ships = touchingFleet, grid =
     [[1, 1, 1, 1, 1, 0, 0, 0, 0, 0],
      [1, 1, 1, 1, 0, 1, 1, 1, 0, 0],
      [0, 0, 0, 0, 0, 0, 0, 0, 0, 0],
      [0, 0, 0, 0, 0, 0, 0, 0, 0, 0],
      [0, 0, 0, 0, 0, 0, 0, 0, 0, 0],
      [1, 0, 0, 0, 0, 0, 0, 0, 0, 0],
      [1, 0, 0, 0, 0, 0, 0, 0, 0, 0],
      [1, 0, 0, 0, 0, 0, 0, 0, 0, 0],
      [0, 1, 1, 0, 0, 0, 0, 0, 0, 0],
      [0, 0, 0, 0, 0, 0, 0, 0, 0, 0]]\<rparr>"

definition carrierBoard :: Board where
  "carrierBoard = \<lparr>ships = [\<lparr>size = 5, x = 0, y = 0, horizontal = True\<rparr>], grid =
     [[1, 1, 1, 1, 1, 0, 0, 0, 0, 0],
      [0, 0, 0, 0, 0, 0, 0, 0, 0, 0],
      [0, 0, 0, 0, 0, 0, 0, 0, 0, 0],
      [0, 0, 0, 0, 0, 0, 0, 0, 0, 0],
      [0, 0, 0, 0, 0, 0, 0, 0, 0, 0],
      [0, 0, 0, 0, 0, 0, 0, 0, 0, 0],
      [0, 0, 0, 0, 0, 0, 0, 0, 0, 0],
      [0, 0, 0, 0, 0, 0, 0, 0, 0, 0],
      [0, 0, 0, 0, 0, 0, 0, 0, 0, 0],
      [0, 0, 0, 0, 0, 0, 0, 0, 0, 0]]\<rparr>"

section \<open>Board construction: lemmas\<close>

lemma wf10_emptyGrid: "wf10 emptyGrid"
  by (simp add: wf10_def emptyGrid_def)

lemma wf10_row: "wf10 g \<Longrightarrow> 0 \<le> cy \<Longrightarrow> cy < 10 \<Longrightarrow> length (g ! nat cy) = 10"
  by (simp add: wf10_def)

lemma wf10_grid_set: "wf10 g \<Longrightarrow> wf10 (grid_set g cy cx v)"
proof (cases "nat cy < length g")
  case True
  assume "wf10 g"
  with True have "length (g ! nat cy) = 10"
    by (simp add: wf10_def)
  with \<open>wf10 g\<close> show ?thesis
    by (auto simp: wf10_def grid_set_def dest!: set_update_subset_insert [THEN subsetD])
next
  case False
  assume "wf10 g"
  with False show ?thesis by (simp add: grid_set_def list_update_beyond)
qed

lemma grid_get_wf10:
  "wf10 g \<Longrightarrow> inb (cx, cy) \<Longrightarrow> grid_get g cy cx = Inr (Some (cellv g (cx, cy)))"
  by (auto simp: grid_get_def js_index_def wf10_def)

lemma placeCell_Inr_iff:
  assumes "wf10 g"
  shows "placeCell g (cx, cy) = Inr g' \<longleftrightarrow>
         inb (cx, cy) \<and> cellv g (cx, cy) = 0 \<and> g' = grid_set g cy cx 1"
proof (cases "inb (cx, cy)")
  case True
  then show ?thesis
    using grid_get_wf10 [OF assms True] by (auto simp: BOARD_SIZE_def)
next
  case False
  then have "\<exists>e. placeCell g (cx, cy) = Inl e"
    using assms
    by (auto simp: BOARD_SIZE_def grid_get_def js_index_def wf10_def split: option.splits)
  with False show ?thesis by auto
qed

lemma cellv_grid_set:
  assumes "wf10 g" "inb (cx, cy)" "inb c"
  shows "cellv (grid_set g cy cx v) c = (if c = (cx, cy) then v else cellv g c)"
proof -
  obtain dx dy where c: "c = (dx, dy)" by (cases c)
  show ?thesis
    using assms unfolding c
    by (auto simp: grid_set_def wf10_def nth_list_update nat_eq_iff)
qed

lemma filter_update_count:
  "i < length row \<Longrightarrow> \<not> P (row ! i) \<Longrightarrow> P v \<Longrightarrow>
   length (filter P (row[i := v])) = Suc (length (filter P row))"
proof (induction row arbitrary: i)
  case Nil
  then show ?case by simp
next
  case (Cons a row)
  then show ?case by (cases i) auto
qed

lemma occupied_sum: "occupied g = sum_list (map (\<lambda>row. length (filter (\<lambda>cell. cell = 1) row)) g)"
  by (simp add: occupied_def filter_concat length_concat comp_def)

lemma occupied_grid_set:
  assumes "wf10 g" "inb (cx, cy)" "cellv g (cx, cy) \<noteq> 1"
  shows "occupied (grid_set g cy cx 1) = Suc (occupied g)"
proof -
  let ?f = "\<lambda>row. length (filter (\<lambda>cell. cell = (1::int)) row)"
  have ly: "nat cy < length g" and lx: "nat cx < length (g ! nat cy)"
    using assms by (auto simp: wf10_def)
  have row: "?f ((g ! nat cy)[nat cx := 1]) = Suc (?f (g ! nat cy))"
    using lx assms(3) by (intro filter_update_count) auto
  have "occupied (grid_set g cy cx 1) = sum_list ((map ?f g)[nat cy := ?f ((g ! nat cy)[nat cx := 1])])"
    by (simp add: occupied_sum grid_set_def map_update)
  also have "\<dots> = sum_list (map ?f g) + ?f ((g ! nat cy)[nat cx := 1]) - (map ?f g) ! nat cy"
    using ly by (simp add: sum_list_update)
  also have "\<dots> = Suc (sum_list (map ?f g))"
    using ly row by simp
  finally show ?thesis by (simp add: occupied_sum)
qed

lemma placeCells_Inr:
  assumes "wf10 g" "placeCells g cs = Inr g'"
  shows "wf10 g' \<and> distinct cs \<and> (\<forall>c \<in> set cs. inb c \<and> cellv g c = 0)
         \<and> (\<forall>c. inb c \<longrightarrow> cellv g' c = (if c \<in> set cs then 1 else cellv g c))
         \<and> occupied g' = occupied g + length cs"
  using assms
proof (induction cs arbitrary: g)
  case Nil
  then show ?case by simp
next
  case (Cons c cs)
  obtain cx cy where c: "c = (cx, cy)" by (cases c)
  from Cons.prems obtain g1 where g1: "placeCell g c = Inr g1" and rest: "placeCells g1 cs = Inr g'"
    by (auto split: sum.splits)
  from g1 have ic: "inb c" and zero: "cellv g c = 0" and g1_def: "g1 = grid_set g cy cx 1"
    using placeCell_Inr_iff [OF Cons.prems(1)] unfolding c by auto
  have wf1: "wf10 g1" unfolding g1_def by (rule wf10_grid_set [OF Cons.prems(1)])
  have cv1: "\<And>d. inb d \<Longrightarrow> cellv g1 d = (if d = c then 1 else cellv g d)"
    unfolding g1_def c using cellv_grid_set [OF Cons.prems(1)] ic unfolding c by blast
  have occ1: "occupied g1 = Suc (occupied g)"
    unfolding g1_def using occupied_grid_set [OF Cons.prems(1), of cx cy] ic zero unfolding c by simp
  note IH = Cons.IH [OF wf1 rest]
  have notin: "c \<notin> set cs"
  proof
    assume "c \<in> set cs"
    with IH have "cellv g1 c = 0" by blast
    with cv1 [OF ic] show False by simp
  qed
  show ?case
  proof (intro conjI)
    show "wf10 g'" using IH by blast
    show "distinct (c # cs)" using IH notin by simp
    show "\<forall>d \<in> set (c # cs). inb d \<and> cellv g d = 0"
    proof
      fix d assume d: "d \<in> set (c # cs)"
      show "inb d \<and> cellv g d = 0"
      proof (cases "d = c")
        case True
        with ic zero show ?thesis by simp
      next
        case False
        with d have "d \<in> set cs" by simp
        with IH have "inb d" "cellv g1 d = 0" by blast+
        with cv1 [of d] False show ?thesis by simp
      qed
    qed
    show "\<forall>d. inb d \<longrightarrow> cellv g' d = (if d \<in> set (c # cs) then 1 else cellv g d)"
    proof (intro allI impI)
      fix d assume d: "inb d"
      with IH have "cellv g' d = (if d \<in> set cs then 1 else cellv g1 d)" by blast
      with cv1 [OF d] show "cellv g' d = (if d \<in> set (c # cs) then 1 else cellv g d)"
        by auto
    qed
    show "occupied g' = occupied g + length (c # cs)"
      using IH occ1 by simp
  qed
qed

lemma placeCells_ok:
  assumes "wf10 g" "distinct cs" "\<forall>c \<in> set cs. inb c \<and> cellv g c = 0"
  shows "\<exists>g'. placeCells g cs = Inr g'"
  using assms
proof (induction cs arbitrary: g)
  case Nil
  then show ?case by simp
next
  case (Cons c cs)
  obtain cx cy where c: "c = (cx, cy)" by (cases c)
  let ?g1 = "grid_set g cy cx 1"
  have ic: "inb c" and zero: "cellv g c = 0" using Cons.prems by auto
  have g1: "placeCell g c = Inr ?g1"
    using placeCell_Inr_iff [OF Cons.prems(1), of cx cy ?g1] ic zero unfolding c by simp
  have wf1: "wf10 ?g1" by (rule wf10_grid_set [OF Cons.prems(1)])
  have "\<forall>d \<in> set cs. inb d \<and> cellv ?g1 d = 0"
  proof
    fix d assume d: "d \<in> set cs"
    with Cons.prems have "inb d" "cellv g d = 0" "d \<noteq> c" by auto
    then show "inb d \<and> cellv ?g1 d = 0"
      using cellv_grid_set [OF Cons.prems(1), of cx cy d 1] ic unfolding c by simp
  qed
  with Cons.IH [OF wf1] Cons.prems(2) obtain g' where "placeCells ?g1 cs = Inr g'"
    by auto
  with g1 show ?case by simp
qed

lemma placeCells_append:
  "placeCells g (as @ bs) = (case placeCells g as of Inl e \<Rightarrow> Inl e | Inr g' \<Rightarrow> placeCells g' bs)"
  by (induction as arbitrary: g) (auto split: sum.splits)

lemma placeShipFrom_cells:
  "placeShipFrom ship i g = placeCells g (map (shipCell ship) [i..size ship - 1])"
proof (induction ship i g rule: placeShipFrom.induct)
  case (1 ship i g)
  show ?case
  proof (cases "i < size ship")
    case True
    then have up: "[i..size ship - 1] = i # [i + 1..size ship - 1]"
      by (simp add: upto_rec1)
    show ?thesis
      using True 1 by (subst placeShipFrom.simps) (auto simp: up split: sum.splits)
  next
    case False
    then show ?thesis by (subst placeShipFrom.simps) simp
  qed
qed

lemma placeShips_cells: "placeShips g ss = placeCells g (concat (map shipCells ss))"
  by (induction ss arbitrary: g)
     (auto simp: placeCells_append placeShipFrom_cells shipCells_def split: sum.splits)

lemma set_shipCells: "c \<in> set (shipCells ship) \<longleftrightarrow> covers ship c"
proof -
  obtain cx cy where c: "c = (cx, cy)" by (cases c)
  have "covers ship (cx, cy) \<Longrightarrow> (cx, cy) \<in> set (shipCells ship)"
  proof (cases "horizontal ship")
    case True
    assume "covers ship (cx, cy)"
    with True have "cx - x ship \<in> {0..size ship - 1}" "(cx, cy) = shipCell ship (cx - x ship)"
      by (auto simp: shipCell_def)
    then show ?thesis unfolding shipCells_def by (simp only: set_map set_upto image_eqI)
  next
    case False
    assume "covers ship (cx, cy)"
    with False have "cy - y ship \<in> {0..size ship - 1}" "(cx, cy) = shipCell ship (cy - y ship)"
      by (auto simp: shipCell_def)
    then show ?thesis unfolding shipCells_def by (simp only: set_map set_upto image_eqI)
  qed
  moreover have "(cx, cy) \<in> set (shipCells ship) \<Longrightarrow> covers ship (cx, cy)"
    by (auto simp: shipCells_def shipCell_def split: if_splits)
  ultimately show ?thesis unfolding c by blast
qed

lemma length_shipCells: "length (shipCells ship) = nat (size ship)"
  by (simp add: shipCells_def)

lemma shipCells_inb:
  assumes "fully_in_bounds ship" "c \<in> set (shipCells ship)"
  shows "inb c"
proof -
  obtain cx cy where c: "c = (cx, cy)" by (cases c)
  from assms(2) have "covers ship (cx, cy)" unfolding c by (simp add: set_shipCells)
  with assms(1) show ?thesis unfolding c
    by (auto simp: fully_in_bounds_def split: if_splits)
qed

lemma cellv_emptyGrid: "inb c \<Longrightarrow> cellv emptyGrid c = 0"
proof -
  assume ic: "inb c"
  obtain cx cy where c: "c = (cx, cy)" by (cases c)
  from ic have "nat cx < 10" "nat cy < 10" unfolding c by auto
  then show ?thesis unfolding c by (simp add: emptyGrid_def)
qed

lemma occupied_emptyGrid: "occupied emptyGrid = 0"
  by (simp add: occupied_def emptyGrid_def)

lemma createBoard_Inr:
  assumes "createBoard ss = Inr b"
  shows "ships b = ss \<and> wf10 (grid b)
         \<and> distinct (concat (map shipCells ss))
         \<and> (\<forall>c \<in> set (concat (map shipCells ss)). inb c)
         \<and> (\<forall>c. inb c \<longrightarrow> cellv (grid b) c = (if \<exists>ship \<in> set ss. covers ship c then 1 else 0))
         \<and> occupied (grid b) = length (concat (map shipCells ss))"
proof -
  from assms obtain g where g: "placeCells emptyGrid (concat (map shipCells ss)) = Inr g"
    and b: "b = \<lparr>ships = ss, grid = g\<rparr>"
    by (auto simp: createBoard_def placeShips_cells split: sum.splits)
  have mem: "\<And>c. c \<in> set (concat (map shipCells ss)) \<longleftrightarrow> (\<exists>ship \<in> set ss. covers ship c)"
    by (auto simp: set_shipCells)
  note P = placeCells_Inr [OF wf10_emptyGrid g]
  have "\<forall>c. inb c \<longrightarrow> cellv g c = (if \<exists>ship \<in> set ss. covers ship c then 1 else 0)"
  proof (intro allI impI)
    fix c assume ic: "inb c"
    with P have "cellv g c = (if c \<in> set (concat (map shipCells ss)) then 1 else cellv emptyGrid c)"
      by blast
    then show "cellv g c = (if \<exists>ship \<in> set ss. covers ship c then 1 else 0)"
      unfolding mem cellv_emptyGrid [OF ic] .
  qed
  moreover have "occupied g = length (concat (map shipCells ss))"
    using P by (simp add: occupied_emptyGrid)
  moreover have "\<forall>c \<in> set (concat (map shipCells ss)). inb c"
    using P by blast
  ultimately show ?thesis
    unfolding b using P by simp
qed

lemma createBoard_ok:
  assumes "list_all fully_in_bounds ss" "distinct (concat (map shipCells ss))"
  shows "\<exists>g. createBoard ss = Inr \<lparr>ships = ss, grid = g\<rparr>"
proof -
  have "\<forall>c \<in> set (concat (map shipCells ss)). inb c \<and> cellv emptyGrid c = 0"
  proof
    fix c assume "c \<in> set (concat (map shipCells ss))"
    then obtain ship where "ship \<in> set ss" "c \<in> set (shipCells ship)" by auto
    with assms(1) have "inb c" by (auto simp: list_all_iff intro: shipCells_inb)
    then show "inb c \<and> cellv emptyGrid c = 0" by (simp add: cellv_emptyGrid)
  qed
  from placeCells_ok [OF wf10_emptyGrid assms(2) this]
  show ?thesis by (auto simp: createBoard_def placeShips_cells)
qed

lemma length_cells_sum: "length (concat (map shipCells ss)) = sum_list (map (\<lambda>s. nat (size s)) ss)"
  by (induction ss) (auto simp: length_shipCells)

lemma getOr0_Nil: "getOr0 [] k = 0"
  by (simp add: getOr0_def)

lemma getOr0_update: "getOr0 (AList.update k v m) k' = (if k' = k then v else getOr0 m k')"
  by (simp add: getOr0_def update_conv')

lemma getOr0_countSizes: "getOr0 (countSizes ks m) k = getOr0 m k + count_list ks k"
  by (induction ks arbitrary: m) (auto simp: getOr0_update)

lemma expectedCounts: "countSizes SHIP_SIZES [] = [(5, 1), (4, 1), (3, 2), (2, 1)]"
  by (simp add: SHIP_SIZES_def getOr0_def)

lemma count_list_mset: "mset ks = mset ks' \<Longrightarrow> count_list ks k = count_list ks' k"
  by (metis count_mset)

lemma validateBoard_composition:
  assumes "mset (map size (ships b)) = mset SHIP_SIZES"
  shows "validateBoard b =
         (case createBoard (ships b) of
            Inl e \<Rightarrow> Inl e
          | Inr r \<Rightarrow> if occupied (grid b) \<noteq> occupied (grid r) then Inl GridMismatch else Inr True)"
proof -
  have len: "length (ships b) = length SHIP_SIZES"
    using assms by (metis length_map size_mset)
  have cnt: "\<And>k. count_list (map size (ships b)) k = count_list SHIP_SIZES k"
    using assms by (rule count_list_mset)
  have "find (\<lambda>(sz, cnt). getOr0 (countSizes (map size (ships b)) []) sz \<noteq> cnt)
          (countSizes SHIP_SIZES []) = None"
    unfolding expectedCounts by (simp add: getOr0_countSizes cnt getOr0_Nil SHIP_SIZES_def)
  then show ?thesis
    using len by (simp add: validateBoard_def Let_def)
qed


lemma sum_sizes_valid:
  assumes "mset (map size ss) = mset ks"
  shows "sum_list (map (\<lambda>s. nat (size s)) ss) = sum_list (map nat ks)"
proof -
  from assms have "image_mset size (mset ss) = mset ks"
    by simp
  then have "image_mset nat (image_mset size (mset ss)) = image_mset nat (mset ks)"
    by (rule arg_cong)
  then have "mset (map nat (map size ss)) = mset (map nat ks)"
    by (simp only: mset_map)
  then have "sum_list (map nat (map size ss)) = sum_list (map nat ks)"
    by (metis sum_mset_sum_list)
  then show ?thesis by (simp add: comp_def)
qed

section \<open>Board construction: results\<close>

lemma createBoard_fleet0: "createBoard fleet0 = Inr board0"
  by code_simp

lemma valid_fleet0: "valid_ship_set fleet0"
  by code_simp

text \<open>
  C7, as stated, fails in its count: the standard fleet covers 5 + 4 + 3 + 3 + 2 = 17
  cells, not 18. The fleet below is valid, \<open>createBoard\<close> and \<open>validateBoard\<close> succeed on
  it, and its grid has 17 occupied cells.
\<close>

theorem standard_fleet_not_18:
  "valid_ship_set fleet0 \<and> createBoard fleet0 = Inr board0
   \<and> validateBoard board0 = Inr True \<and> occupied (grid board0) = 17
   \<and> occupied (grid board0) \<noteq> 18"
proof -
  have "validateBoard board0 = Inr True" by code_simp
  moreover have "occupied (grid board0) = 17" by code_simp
  ultimately show ?thesis
    using valid_fleet0 createBoard_fleet0 by simp
qed

text \<open>
  C7 (amended): for every valid ship set (size multiset {5,4,3,3,2}, every ship on the
  board, no cell shared), \<open>createBoard\<close> succeeds, \<open>validateBoard\<close> succeeds on the
  result, and the number of occupied cells is the sum of the ship sizes, which is 17.
\<close>

theorem createBoard_then_validateBoard:
  assumes "valid_ship_set ss"
  shows "\<exists>b. createBoard ss = Inr b \<and> validateBoard b = Inr True
             \<and> int (occupied (grid b)) = sum_list (map size ss)
             \<and> occupied (grid b) = 17"
proof -
  from assms have ms: "mset (map size ss) = mset SHIP_SIZES"
    and ib: "list_all fully_in_bounds ss" and di: "distinct (concat (map shipCells ss))"
    by (simp_all add: valid_ship_set_def)
  from createBoard_ok [OF ib di] obtain g where cb: "createBoard ss = Inr \<lparr>ships = ss, grid = g\<rparr>"
    by blast
  let ?b = "\<lparr>ships = ss, grid = g\<rparr>"
  from createBoard_Inr [OF cb] have occ: "occupied g = sum_list (map (\<lambda>s. nat (size s)) ss)"
    by (simp add: length_cells_sum)
  with sum_sizes_valid [OF ms] have o18: "occupied g = 17"
    by (simp add: SHIP_SIZES_def)
  have "sum_list (map size ss) = sum_mset (mset (map size ss))"
    by (simp only: sum_mset_sum_list)
  also have "\<dots> = 17" unfolding ms by (simp add: SHIP_SIZES_def)
  finally have s18: "sum_list (map size ss) = 17" .
  have "validateBoard ?b = Inr True"
    using validateBoard_composition [of ?b] ms cb by simp
  with cb o18 s18 show ?thesis by simp
qed

theorem createBoard_then_validateBoard_witness:
  "valid_ship_set fleet0
   \<and> (\<exists>b. createBoard fleet0 = Inr b \<and> validateBoard b = Inr True
            \<and> int (occupied (grid b)) = sum_list (map size fleet0) \<and> occupied (grid b) = 17)"
  using createBoard_then_validateBoard [OF valid_fleet0] valid_fleet0 by simp

text \<open>
  C5: on a board whose grid is the one \<open>createBoard\<close> builds from its ship list,
  \<open>checkShotResult\<close> at a coordinate on the board returns whether some ship of the ship
  list covers the coordinate; at any other coordinate it fails with the out-of-bounds
  error, on every board. It returns a value and nothing else: the board is not changed.
\<close>

theorem checkShotResult_agrees_with_ships:
  "(createBoard (ships b) = Inr b \<and> 0 \<le> sx \<and> sx < 10 \<and> 0 \<le> sy \<and> sy < 10 \<longrightarrow>
      checkShotResult b sx sy = Inr (\<exists>ship \<in> set (ships b). covers ship (sx, sy)))
   \<and> (\<not> (0 \<le> sx \<and> sx < 10 \<and> 0 \<le> sy \<and> sy < 10) \<longrightarrow>
        checkShotResult b sx sy = Inl (ShotOutOfBounds sx sy))"
proof (intro conjI impI)
  assume a: "createBoard (ships b) = Inr b \<and> 0 \<le> sx \<and> sx < 10 \<and> 0 \<le> sy \<and> sy < 10"
  then have ib: "inb (sx, sy)" by simp
  from a have "createBoard (ships b) = Inr b" ..
  note B = createBoard_Inr [OF this]
  from B ib have "cellv (grid b) (sx, sy) = (if \<exists>ship \<in> set (ships b). covers ship (sx, sy) then 1 else 0)"
    by blast
  moreover from B have "grid_get (grid b) sy sx = Inr (Some (cellv (grid b) (sx, sy)))"
    using grid_get_wf10 [OF _ ib] by blast
  ultimately show "checkShotResult b sx sy = Inr (\<exists>ship \<in> set (ships b). covers ship (sx, sy))"
    using ib by (simp add: checkShotResult_def)
next
  assume "\<not> (0 \<le> sx \<and> sx < 10 \<and> 0 \<le> sy \<and> sy < 10)"
  then show "checkShotResult b sx sy = Inl (ShotOutOfBounds sx sy)"
    by (auto simp: checkShotResult_def)
qed

theorem checkShotResult_agrees_with_ships_witness:
  "createBoard (ships board0) = Inr board0
   \<and> checkShotResult board0 3 2 = Inr True
   \<and> checkShotResult board0 4 2 = Inr False
   \<and> checkShotResult board0 10 2 = Inl (ShotOutOfBounds 10 2)"
proof -
  have "ships board0 = fleet0" by (simp add: board0_def)
  then have cb: "createBoard (ships board0) = Inr board0"
    by (simp only: createBoard_fleet0)
  have 1: "checkShotResult board0 3 2 = Inr (\<exists>ship \<in> set (ships board0). covers ship (3, 2))"
    using checkShotResult_agrees_with_ships [of board0 3 2] cb by simp
  have 2: "checkShotResult board0 4 2 = Inr (\<exists>ship \<in> set (ships board0). covers ship (4, 2))"
    using checkShotResult_agrees_with_ships [of board0 4 2] cb by simp
  have 3: "checkShotResult board0 10 2 = Inl (ShotOutOfBounds 10 2)"
    using checkShotResult_agrees_with_ships [of board0 10 2] by simp
  have "(\<exists>ship \<in> set (ships board0). covers ship (3, 2))"
       "\<not> (\<exists>ship \<in> set (ships board0). covers ship (4, 2))"
    by (simp_all add: board0_def fleet0_def)
  with 1 2 3 cb show ?thesis by simp
qed

text \<open>
  C6, as stated, fails in its scenario: the board of the standard fleet has 17 occupied
  cells, so \<open>checkAllShipsSunk\<close> is already true after 17 recorded hits and false after an
  18th hit at a new coordinate.
\<close>

theorem allSunk_after_17_not_18:
  "createBoard fleet0 = Inr board0
   \<and> length (hits shots17) = 17 \<and> distinct (hits shots17)
   \<and> checkAllShipsSunk board0 shots17
   \<and> length (hits (addShot shots17 7 7 True)) = 18 \<and> distinct (hits (addShot shots17 7 7 True))
   \<and> \<not> checkAllShipsSunk board0 (addShot shots17 7 7 True)"
proof -
  have "length (hits shots17) = 17" "distinct (hits shots17)" "checkAllShipsSunk board0 shots17"
    "length (hits (addShot shots17 7 7 True)) = 18" "distinct (hits (addShot shots17 7 7 True))"
    "\<not> checkAllShipsSunk board0 (addShot shots17 7 7 True)"
    by code_simp+
  with createBoard_fleet0 show ?thesis by simp
qed

text \<open>
  C6 (amended): \<open>checkAllShipsSunk\<close> is true exactly when the number of entries of the
  hit list equals the number of occupied cells of the grid. A board created from a valid
  ship set has 17 occupied cells: there it is false after 16 recorded hits and true once
  one more hit is recorded.
\<close>

theorem checkAllShipsSunk_counts:
  "(checkAllShipsSunk b m \<longleftrightarrow> length (hits m) = occupied (grid b))
   \<and> (valid_ship_set ss \<and> createBoard ss = Inr b' \<and> length (hits m') = 16 \<longrightarrow>
        \<not> checkAllShipsSunk b' m' \<and> checkAllShipsSunk b' (addShot m' sx sy True))"
proof -
  have "occupied (grid b') = 17" if v: "valid_ship_set ss" and c: "createBoard ss = Inr b'"
  proof -
    from v have ms: "mset (map size ss) = mset SHIP_SIZES"
      by (simp add: valid_ship_set_def)
    from createBoard_Inr [OF c] have "occupied (grid b') = sum_list (map (\<lambda>s. nat (size s)) ss)"
      by (simp add: length_cells_sum)
    with sum_sizes_valid [OF ms] show ?thesis
      by (simp add: SHIP_SIZES_def)
  qed
  then show ?thesis
    by (auto simp: checkAllShipsSunk_def addShot_def)
qed

theorem checkAllShipsSunk_counts_witness:
  "valid_ship_set fleet0 \<and> createBoard fleet0 = Inr board0 \<and> length (hits shots16) = 16
   \<and> \<not> checkAllShipsSunk board0 shots16 \<and> checkAllShipsSunk board0 (addShot shots16 9 9 True)"
proof -
  have l: "length (hits shots16) = 16" by (simp add: shots16_def)
  from checkAllShipsSunk_counts [of board0 shots16 fleet0 board0 shots16 9 9]
    valid_fleet0 createBoard_fleet0 l
  show ?thesis by blast
qed

section \<open>Placement: results\<close>

lemma offered_sizes: "map shipTypeValue shipsToPlace = [5, 4, 3, 2, 1]"
  by (simp add: shipsToPlace_def)

lemma validateBoard_offered:
  assumes "mset (map size (ships b)) = mset (map shipTypeValue shipsToPlace)"
  shows "validateBoard b = Inl (InvalidShipsOfSize 3)"
proof -
  from assms have ms: "mset (map size (ships b)) = mset [5, 4, 3, 2, 1]"
    by (simp only: offered_sizes)
  then have len: "length (ships b) = length SHIP_SIZES"
    by (metis length_map size_mset SHIP_SIZES_def length_Cons)
  have cnt: "\<And>k. count_list (map size (ships b)) k = count_list [5, 4, 3, 2, 1] k"
    using ms by (rule count_list_mset)
  have "find (\<lambda>(sz, cnt). getOr0 (countSizes (map size (ships b)) []) sz \<noteq> cnt)
          (countSizes SHIP_SIZES []) = Some (3, 2)"
    unfolding expectedCounts by (simp add: getOr0_countSizes cnt getOr0_Nil)
  then show ?thesis
    using len by (simp add: validateBoard_def Let_def)
qed

text \<open>
  C9: the placement component offers the sizes 5, 4, 3, 2, 1, which is not the multiset
  of \<open>SHIP_SIZES\<close>. On every board whose ships have exactly these sizes \<open>validateBoard\<close>
  throws (there is one ship of size 3 where two are expected), and when the board was
  built by \<open>createBoard\<close> from such ships it has 15 occupied cells.
\<close>

theorem placement_fleet_rejected:
  "map shipTypeValue shipsToPlace = [5, 4, 3, 2, 1]
   \<and> mset (map shipTypeValue shipsToPlace) \<noteq> mset SHIP_SIZES
   \<and> (mset (map size (ships b)) = mset (map shipTypeValue shipsToPlace) \<longrightarrow>
        validateBoard b = Inl (InvalidShipsOfSize 3))
   \<and> (mset (map size ss) = mset (map shipTypeValue shipsToPlace) \<and> createBoard ss = Inr b' \<longrightarrow>
        validateBoard b' = Inl (InvalidShipsOfSize 3) \<and> occupied (grid b') = 15)"
proof -
  have ne: "mset (map shipTypeValue shipsToPlace) \<noteq> mset SHIP_SIZES"
  proof
    assume "mset (map shipTypeValue shipsToPlace) = mset SHIP_SIZES"
    then have "count_list (map shipTypeValue shipsToPlace) 1 = count_list SHIP_SIZES 1"
      by (rule count_list_mset)
    then show False by (simp add: offered_sizes SHIP_SIZES_def)
  qed
  have "validateBoard b' = Inl (InvalidShipsOfSize 3) \<and> occupied (grid b') = 15"
    if ms: "mset (map size ss) = mset (map shipTypeValue shipsToPlace)" and c: "createBoard ss = Inr b'"
  proof -
    note B = createBoard_Inr [OF c]
    from B ms have "validateBoard b' = Inl (InvalidShipsOfSize 3)"
      by (intro validateBoard_offered) simp
    moreover from B have "occupied (grid b') = sum_list (map (\<lambda>s. nat (size s)) ss)"
      by (simp add: length_cells_sum)
    with sum_sizes_valid [OF ms] have "occupied (grid b') = 15"
      by (simp add: offered_sizes)
    ultimately show ?thesis ..
  qed
  with ne offered_sizes validateBoard_offered show ?thesis by blast
qed

theorem placement_fleet_rejected_witness:
  "mset (map size (ships placementBoard)) = mset (map shipTypeValue shipsToPlace)
   \<and> createBoard placementFleet = Inr placementBoard
   \<and> validateBoard placementBoard = Inl (InvalidShipsOfSize 3)
   \<and> occupied (grid placementBoard) = 15"
proof -
  have m: "mset (map size placementFleet) = mset (map shipTypeValue shipsToPlace)"
    by (simp add: placementFleet_def shipsToPlace_def)
  have c: "createBoard placementFleet = Inr placementBoard"
    by code_simp
  have m': "mset (map size (ships placementBoard)) = mset (map shipTypeValue shipsToPlace)"
    using m by (simp add: placementBoard_def)
  from placement_fleet_rejected [of placementBoard placementFleet placementBoard] m m' c
  show ?thesis by blast
qed

lemma upto_m1_1: "[-1..1] = [-1, 0, 1::int]"
  by code_simp

lemma neighbourhood_cells:
  "neighbourhood (cx, cy) =
     [(cx - 1, cy - 1), (cx - 1, cy), (cx - 1, cy + 1),
      (cx, cy - 1), (cx, cy), (cx, cy + 1),
      (cx + 1, cy - 1), (cx + 1, cy), (cx + 1, cy + 1)]"
  by (simp add: neighbourhood_def upto_m1_1)

lemma set_neighbourhood: "d \<in> set (neighbourhood c) \<longleftrightarrow> d = c \<or> adjacent8 c d"
proof -
  obtain cx cy where c: "c = (cx, cy)" by (cases c)
  obtain dx dy where d: "d = (dx, dy)" by (cases d)
  have "(dx, dy) \<in> set (neighbourhood (cx, cy)) \<longleftrightarrow>
        (dx = cx - 1 \<or> dx = cx \<or> dx = cx + 1) \<and> (dy = cy - 1 \<or> dy = cy \<or> dy = cy + 1)"
    unfolding neighbourhood_cells by (simp only: list.set insert_iff empty_iff prod.inject) blast
  also have "\<dots> \<longleftrightarrow> \<bar>cx - dx\<bar> \<le> 1 \<and> \<bar>cy - dy\<bar> \<le> 1"
    by arith
  also have "\<dots> \<longleftrightarrow> (dx, dy) = (cx, cy) \<or> adjacent8 (cx, cy) (dx, dy)"
    by (simp only: adjacent8.simps prod.inject) arith
  finally show ?thesis unfolding c d .
qed

lemma scanNoShip_True:
  "scanNoShip g cs = Inr True \<Longrightarrow> d \<in> set cs \<Longrightarrow> inb d \<Longrightarrow> readCell g d \<noteq> Inr (Some 1)"
proof (induction cs)
  case Nil
  then show ?case by simp
next
  case (Cons a cs)
  obtain ax ay where a: "a = (ax, ay)" by (cases a)
  show ?case
  proof (cases "inb a")
    case False
    with Cons.prems(1) have "scanNoShip g cs = Inr True"
      unfolding a by (simp add: BOARD_SIZE_def not_le not_less split: if_splits)
    moreover from False Cons.prems(2,3) have "d \<in> set cs" by auto
    ultimately show ?thesis using Cons.IH Cons.prems(3) by blast
  next
    case True
    then have ib: "\<not> (ax < 0 \<or> ax \<ge> BOARD_SIZE \<or> ay < 0 \<or> ay \<ge> BOARD_SIZE)"
      unfolding a by (simp add: BOARD_SIZE_def)
    from Cons.prems(1) obtain v where v: "grid_get g ay ax = Inr v"
      unfolding a by (simp only: scanNoShip.simps ib if_False split: sum.splits) simp
    with Cons.prems(1) ib have nv: "v \<noteq> Some 1" and rest: "scanNoShip g cs = Inr True"
      unfolding a by (simp_all split: if_splits)
    show ?thesis
    proof (cases "d = a")
      case True
      with v nv show ?thesis unfolding a by simp
    next
      case False
      with Cons.prems(2) have "d \<in> set cs" by simp
      with Cons.IH rest Cons.prems(3) show ?thesis by blast
    qed
  qed
qed

lemma scanAllZero_True:
  "scanAllZero g cs = Inr True \<Longrightarrow> d \<in> set cs \<Longrightarrow> inb d \<Longrightarrow> readCell g d = Inr (Some 0)"
proof (induction cs)
  case Nil
  then show ?case by simp
next
  case (Cons a cs)
  obtain ax ay where a: "a = (ax, ay)" by (cases a)
  show ?case
  proof (cases "inb a")
    case False
    with Cons.prems(1) have "scanAllZero g cs = Inr True"
      unfolding a by (simp add: BOARD_SIZE_def not_le not_less split: if_splits)
    moreover from False Cons.prems(2,3) have "d \<in> set cs" by auto
    ultimately show ?thesis using Cons.IH Cons.prems(3) by blast
  next
    case True
    then have ib: "\<not> (ax < 0 \<or> ax \<ge> BOARD_SIZE \<or> ay < 0 \<or> ay \<ge> BOARD_SIZE)"
      unfolding a by (simp add: BOARD_SIZE_def)
    from Cons.prems(1) obtain v where v: "grid_get g ay ax = Inr v"
      unfolding a by (simp only: scanAllZero.simps ib if_False split: sum.splits) simp
    with Cons.prems(1) ib have nv: "v = Some 0" and rest: "scanAllZero g cs = Inr True"
      unfolding a by (simp_all split: if_splits)
    show ?thesis
    proof (cases "d = a")
      case True
      with v nv show ?thesis unfolding a by simp
    next
      case False
      with Cons.prems(2) have "d \<in> set cs" by simp
      with Cons.IH rest Cons.prems(3) show ?thesis by blast
    qed
  qed
qed

lemma isValidPlacement_True:
  assumes "isValidPlacement b ship = Inr True" "c \<in> set (shipCells ship)"
    "d = c \<or> adjacent8 c d" "inb d"
  shows "readCell (grid b) d \<noteq> Inr (Some 1)"
proof -
  from assms(1) have scan: "scanNoShip (grid b)
      (concat (map (\<lambda>i. neighbourhood (shipCell ship i)) [0..size ship - 1])) = Inr True"
    by (simp add: isValidPlacement_def split: if_splits)
  from assms(2) obtain i where "i \<in> set [0..size ship - 1]" "c = shipCell ship i"
    unfolding shipCells_def by auto
  with assms(3) have "d \<in> set (concat (map (\<lambda>i. neighbourhood (shipCell ship i)) [0..size ship - 1]))"
    using set_neighbourhood [of d c] by auto
  from scanNoShip_True [OF scan this assms(4)] show ?thesis .
qed

lemma set_haloCells:
  "(dx, dy) \<in> set (haloCells sz px py hz) \<longleftrightarrow>
     (if hz then - 1 \<le> dx - px \<and> dx - px \<le> sz \<and> - 1 \<le> dy - py \<and> dy - py \<le> 1
      else - 1 \<le> dy - py \<and> dy - py \<le> sz \<and> - 1 \<le> dx - px \<and> dx - px \<le> 1)"
proof (cases hz)
  case True
  have "(dx, dy) \<in> set (haloCells sz px py hz) \<longleftrightarrow>
        (\<exists>i \<in> {- 1..sz}. \<exists>j \<in> {- 1..1}. dx = px + i \<and> dy = py + j)"
    unfolding haloCells_def using True
    by (simp only: set_concat set_map set_upto if_True image_image UN_iff bex_simps image_iff prod.inject)
  also have "\<dots> \<longleftrightarrow> - 1 \<le> dx - px \<and> dx - px \<le> sz \<and> - 1 \<le> dy - py \<and> dy - py \<le> 1"
  proof
    assume "\<exists>i \<in> {- 1..sz}. \<exists>j \<in> {- 1..1}. dx = px + i \<and> dy = py + j"
    then obtain i j where "- 1 \<le> i" "i \<le> sz" "- 1 \<le> j" "j \<le> 1" "dx = px + i" "dy = py + j"
      by (auto simp only: atLeastAtMost_iff)
    then show "- 1 \<le> dx - px \<and> dx - px \<le> sz \<and> - 1 \<le> dy - py \<and> dy - py \<le> 1"
      by simp
  next
    assume a: "- 1 \<le> dx - px \<and> dx - px \<le> sz \<and> - 1 \<le> dy - py \<and> dy - py \<le> 1"
    then have "dx - px \<in> {- 1..sz}" "dy - py \<in> {- 1..1}" "dx = px + (dx - px) \<and> dy = py + (dy - py)"
      by (simp_all only: atLeastAtMost_iff) simp
    then show "\<exists>i \<in> {- 1..sz}. \<exists>j \<in> {- 1..1}. dx = px + i \<and> dy = py + j"
      by (intro bexI)
  qed
  finally show ?thesis using True by (simp only: if_True)
next
  case False
  have "(dx, dy) \<in> set (haloCells sz px py hz) \<longleftrightarrow>
        (\<exists>i \<in> {- 1..sz}. \<exists>j \<in> {- 1..1}. dx = px + j \<and> dy = py + i)"
    unfolding haloCells_def using False
    by (simp only: set_concat set_map set_upto if_False image_image UN_iff bex_simps image_iff prod.inject)
  also have "\<dots> \<longleftrightarrow> - 1 \<le> dy - py \<and> dy - py \<le> sz \<and> - 1 \<le> dx - px \<and> dx - px \<le> 1"
  proof
    assume "\<exists>i \<in> {- 1..sz}. \<exists>j \<in> {- 1..1}. dx = px + j \<and> dy = py + i"
    then obtain i j where "- 1 \<le> i" "i \<le> sz" "- 1 \<le> j" "j \<le> 1" "dx = px + j" "dy = py + i"
      by (auto simp only: atLeastAtMost_iff)
    then show "- 1 \<le> dy - py \<and> dy - py \<le> sz \<and> - 1 \<le> dx - px \<and> dx - px \<le> 1"
      by simp
  next
    assume a: "- 1 \<le> dy - py \<and> dy - py \<le> sz \<and> - 1 \<le> dx - px \<and> dx - px \<le> 1"
    then have "dy - py \<in> {- 1..sz}" "dx - px \<in> {- 1..1}" "dx = px + (dx - px) \<and> dy = py + (dy - py)"
      by (simp_all only: atLeastAtMost_iff) simp
    then show "\<exists>i \<in> {- 1..sz}. \<exists>j \<in> {- 1..1}. dx = px + j \<and> dy = py + i"
      by (intro bexI)
  qed
  finally show ?thesis using False by (simp only: if_False)
qed

lemma halo_covers_neighbourhood:
  assumes "c \<in> set (shipCells \<lparr>size = sz, x = px, y = py, horizontal = hz\<rparr>)" "d = c \<or> adjacent8 c d"
  shows "d \<in> set (haloCells sz px py hz)"
proof -
  obtain cx cy where c: "c = (cx, cy)" by (cases c)
  obtain dx dy where d: "d = (dx, dy)" by (cases d)
  from assms(1) have cov: "covers \<lparr>size = sz, x = px, y = py, horizontal = hz\<rparr> (cx, cy)"
    unfolding c by (simp add: set_shipCells)
  from assms(2) have near: "\<bar>cx - dx\<bar> \<le> 1" "\<bar>cy - dy\<bar> \<le> 1"
    unfolding c d by auto
  show ?thesis
  proof (cases hz)
    case True
    with cov have "cy = py" "px \<le> cx" "cx < px + sz" by simp_all
    with near have "- 1 \<le> dx - px \<and> dx - px \<le> sz \<and> - 1 \<le> dy - py \<and> dy - py \<le> 1"
      by arith
    then show ?thesis unfolding d using True by (simp only: set_haloCells if_True)
  next
    case False
    with cov have "cx = px" "py \<le> cy" "cy < py + sz" by simp_all
    with near have "- 1 \<le> dy - py \<and> dy - py \<le> sz \<and> - 1 \<le> dx - px \<and> dx - px \<le> 1"
      by arith
    then show ?thesis unfolding d using False by (simp only: set_haloCells if_False)
  qed
qed

lemma randomPlacementValid_True:
  assumes "randomPlacementValid tempGrid sz px py hz = Inr True"
    "c \<in> set (shipCells \<lparr>size = sz, x = px, y = py, horizontal = hz\<rparr>)"
    "d = c \<or> adjacent8 c d" "inb d"
  shows "readCell tempGrid d = Inr (Some 0)"
proof -
  from assms(1) have "scanAllZero tempGrid (haloCells sz px py hz) = Inr True"
    by (simp add: randomPlacementValid_def)
  moreover have "d \<in> set (haloCells sz px py hz)"
    using assms(2,3) by (rule halo_covers_neighbourhood)
  ultimately show ?thesis using assms(4) by (rule scanAllZero_True)
qed

text \<open>
  C10: \<open>createBoard\<close> and \<open>validateBoard\<close> accept a fleet of the standard sizes, on the
  board and without a shared cell, in which two ships touch. The same second ship is
  refused by \<open>isValidPlacement\<close> and by the test of the random generator on the board
  that holds the first ship. In general, when \<open>isValidPlacement\<close> returns true no cell of
  the ship is on or next to a cell that holds a ship, and when the random generator's test
  succeeds every cell of the ship and around it is 0.
\<close>

theorem no_touch_rule_not_enforced:
  "(valid_ship_set touchingFleet
    \<and> touching (touchingFleet ! 0) (touchingFleet ! 1)
    \<and> createBoard touchingFleet = Inr touchingBoard
    \<and> validateBoard touchingBoard = Inr True
    \<and> createBoard (take 1 touchingFleet) = Inr carrierBoard
    \<and> isValidPlacement carrierBoard (touchingFleet ! 1) = Inr False
    \<and> randomPlacementValid (grid carrierBoard) 4 0 1 True = Inr False)
   \<and> (isValidPlacement b ship = Inr True \<and> c \<in> set (shipCells ship)
        \<and> (d = c \<or> adjacent8 c d) \<and> inb d \<longrightarrow> readCell (grid b) d \<noteq> Inr (Some 1))
   \<and> (randomPlacementValid tempGrid sz px py hz = Inr True
        \<and> c' \<in> set (shipCells \<lparr>size = sz, x = px, y = py, horizontal = hz\<rparr>)
        \<and> (d' = c' \<or> adjacent8 c' d') \<and> inb d' \<longrightarrow> readCell tempGrid d' = Inr (Some 0))"
proof (intro conjI impI)
  show "valid_ship_set touchingFleet" by code_simp
  show "touching (touchingFleet ! 0) (touchingFleet ! 1)" by code_simp
  show "createBoard touchingFleet = Inr touchingBoard" by code_simp
  show "validateBoard touchingBoard = Inr True" by code_simp
  show "createBoard (take 1 touchingFleet) = Inr carrierBoard" by code_simp
  show "isValidPlacement carrierBoard (touchingFleet ! 1) = Inr False" by code_simp
  show "randomPlacementValid (grid carrierBoard) 4 0 1 True = Inr False" by code_simp
next
  assume "isValidPlacement b ship = Inr True \<and> c \<in> set (shipCells ship)
        \<and> (d = c \<or> adjacent8 c d) \<and> inb d"
  then show "readCell (grid b) d \<noteq> Inr (Some 1)"
    using isValidPlacement_True [of b ship c d] by (elim conjE)
next
  assume "randomPlacementValid tempGrid sz px py hz = Inr True
        \<and> c' \<in> set (shipCells \<lparr>size = sz, x = px, y = py, horizontal = hz\<rparr>)
        \<and> (d' = c' \<or> adjacent8 c' d') \<and> inb d'"
  then show "readCell tempGrid d' = Inr (Some 0)"
    using randomPlacementValid_True [of tempGrid sz px py hz c' d'] by (elim conjE)
qed

theorem no_touch_rule_not_enforced_witness:
  "isValidPlacement carrierBoard (touchingFleet ! 3) = Inr True
   \<and> (0, 5) \<in> set (shipCells (touchingFleet ! 3)) \<and> adjacent8 (0, 5) (1, 4) \<and> inb (1, 4)
   \<and> readCell (grid carrierBoard) (1, 4) \<noteq> Inr (Some 1)
   \<and> randomPlacementValid (grid carrierBoard) 3 0 5 False = Inr True
   \<and> readCell (grid carrierBoard) (1, 4) = Inr (Some 0)"
proof -
  have h1: "isValidPlacement carrierBoard (touchingFleet ! 3) = Inr True" by code_simp
  have h2: "(0, 5) \<in> set (shipCells (touchingFleet ! 3))" by code_simp
  have h3: "(1, 4) = (0, 5) \<or> adjacent8 (0, 5) (1::int, 4::int)" by simp
  have h4: "inb (1, 4)" by simp
  have h5: "randomPlacementValid (grid carrierBoard) 3 0 5 False = Inr True" by code_simp
  have h6: "(0, 5) \<in> set (shipCells \<lparr>size = 3, x = 0, y = 5, horizontal = False\<rparr>)" by code_simp
  note T = no_touch_rule_not_enforced
    [of carrierBoard "touchingFleet ! 3" "(0, 5)" "(1, 4)" "grid carrierBoard" 3 0 5 False "(0, 5)" "(1, 4)"]
  from T [THEN conjunct2, THEN conjunct1] h1 h2 h3 h4
  have r1: "readCell (grid carrierBoard) (1, 4) \<noteq> Inr (Some 1)"
    by blast
  from T [THEN conjunct2, THEN conjunct2] h5 h6 h3 h4
  have r2: "readCell (grid carrierBoard) (1, 4) = Inr (Some 0)"
    by blast
  have h3': "adjacent8 (0, 5) (1::int, 4::int)" by simp
  from h1 h2 h3' h4 h5 r1 r2 show ?thesis by (intro conjI)
qed

section \<open>Claim builders: lemmas\<close>



lemma length_concat_wf10: "wf10 g \<Longrightarrow> length (concat g) = 100"
proof -
  assume w: "wf10 g"
  then have "map length g = replicate 10 10"
    by (auto simp: wf10_def intro: nth_equalityI [where ys = "replicate 10 10"] replicate_eqI)
  then show ?thesis by (simp add: length_concat sum_list_replicate)
qed








section \<open>Shot claim: results\<close>



text \<open>The salt that \<open>generateSalt\<close> returns has 32 characters, whatever the 16 random bytes are.\<close>

lemma length_hexlify: "length (hexlify bs) = 2 + 2 * length bs"
  by (induction bs) (simp_all add: hexlify_def)

lemma length_generateSalt:
  "length (randomBytes 16) = 16 \<Longrightarrow> length (generateSalt randomBytes) = 32"
  by (simp add: generateSalt_def length_hexlify)

lemma generateBoardCommitment_generated_salt:
  "length (randomBytes 16) = 16 \<Longrightarrow>
   generateBoardCommitment b (generateSalt randomBytes) = Inl Bytes32TooLong"
  by (simp add: generateBoardCommitment_def formatBytes32String_def toUtf8Bytes_def
      length_generateSalt Let_def)


lemma generateSalt_countingBytes: "generateSalt countingBytes = salt0"
  by code_simp


section \<open>Board commitment: results\<close>

lemma numberToString_bit: "numberToString 0 = ''0''" "numberToString 1 = ''1''"
  by code_simp+

lemma join_bits:
  "\<forall>cell \<in> set cs. cell = 0 \<or> cell = 1 \<Longrightarrow> concat (map numberToString cs) = map bitChar cs"
  by (induction cs) (auto simp: numberToString_bit bitChar_def)

lemma serializeBoard_bits:
  assumes "bits (grid b)"
  shows "serializeBoard b = map bitChar (concat (grid b))"
  unfolding serializeBoard_def using assms by (intro join_bits) (auto simp: bits_def)

lemma bitChar_inj:
  assumes "\<forall>cell \<in> set cs. cell = 0 \<or> cell = 1" "\<forall>cell \<in> set ds. cell = 0 \<or> cell = 1"
    "map bitChar cs = map bitChar ds"
  shows "cs = ds"
  using assms
proof (induction cs arbitrary: ds)
  case Nil
  then show ?case by simp
next
  case (Cons c cs)
  then obtain d ds' where ds: "ds = d # ds'" by (cases ds) auto
  with Cons.prems have e: "bitChar c = bitChar d" "map bitChar cs = map bitChar ds'"
    and r: "c = 0 \<or> c = 1" "d = 0 \<or> d = 1"
    and rs: "\<forall>cell \<in> set cs. cell = 0 \<or> cell = 1" "\<forall>cell \<in> set ds'. cell = 0 \<or> cell = 1"
    by auto
  from e(1) r have "c = d" by (auto simp: bitChar_def)
  moreover from Cons.IH [OF rs e(2)] have "cs = ds'" .
  ultimately show ?case unfolding ds by simp
qed

lemma serializeBoard_inj:
  assumes "wf10 (grid b)" "bits (grid b)" "wf10 (grid b')" "bits (grid b')"
    "serializeBoard b = serializeBoard b'"
  shows "grid b = grid b'"
proof -
  from assms(2,4,5) have "map bitChar (concat (grid b)) = map bitChar (concat (grid b'))"
    by (simp add: serializeBoard_bits)
  moreover have "\<forall>cell \<in> set (concat (grid b)). cell = 0 \<or> cell = 1"
    "\<forall>cell \<in> set (concat (grid b')). cell = 0 \<or> cell = 1"
    using assms(2,4) by (auto simp: bits_def)
  ultimately have "concat (grid b) = concat (grid b')"
    by (intro bitChar_inj)
  moreover have "length (grid b) = length (grid b')"
    using assms(1,3) by (simp add: wf10_def)
  moreover have "\<forall>(r, r') \<in> set (zip (grid b) (grid b')). length r = length r'"
  proof (intro ballI, clarify)
    fix r r' assume z: "(r, r') \<in> set (zip (grid b) (grid b'))"
    then have "r \<in> set (grid b)" "r' \<in> set (grid b')"
      by (auto dest: set_zip_leftD set_zip_rightD)
    with assms(1,3) show "length r = length r'" by (simp add: wf10_def)
  qed
  ultimately show ?thesis by (rule concat_injective)
qed

lemma formatBytes32String_short:
  "length s \<le> 31 \<Longrightarrow> formatBytes32String s = Inr (s @ replicate (32 - length s) (CHR 0x00))"
  by (simp add: formatBytes32String_def toUtf8Bytes_def Let_def)

lemma formatBytes32String_long: "length s > 31 \<Longrightarrow> formatBytes32String s = Inl Bytes32TooLong"
  by (simp add: formatBytes32String_def toUtf8Bytes_def Let_def)

lemma commitment_short:
  "length s \<le> 31 \<Longrightarrow>
   generateBoardCommitment b s =
     Inr (Keccak256 (serializeBoard b @ s @ replicate (32 - length s) (CHR 0x00)))"
  by (simp add: generateBoardCommitment_def formatBytes32String_short solidityPack_def
      toUtf8Bytes_def Let_def)

lemma commitment_eq_iff:
  assumes "length s \<le> 31" "length s' \<le> 31"
  shows "generateBoardCommitment b s = generateBoardCommitment b' s' \<longleftrightarrow>
         serializeBoard b = serializeBoard b'
         \<and> s @ replicate (32 - length s) (CHR 0x00) = s' @ replicate (32 - length s') (CHR 0x00)"
proof -
  have "length (s @ replicate (32 - length s) (CHR 0x00)) = length (s' @ replicate (32 - length s') (CHR 0x00))"
    using assms by simp
  then have "serializeBoard b @ s @ replicate (32 - length s) (CHR 0x00)
      = serializeBoard b' @ s' @ replicate (32 - length s') (CHR 0x00)
    \<longleftrightarrow> serializeBoard b = serializeBoard b'
      \<and> s @ replicate (32 - length s) (CHR 0x00) = s' @ replicate (32 - length s') (CHR 0x00)"
    by (intro append_eq_append_conv disjI2)
  then show ?thesis
    using assms by (simp only: commitment_short sum.inject digest.inject)
qed

lemma bits_grid_set: "bits g \<Longrightarrow> v = 0 \<or> v = 1 \<Longrightarrow> bits (grid_set g cy cx v)"
proof -
  assume b: "bits g" and v: "v = 0 \<or> v = 1"
  show ?thesis
    unfolding bits_def grid_set_def
  proof (intro ballI)
    fix row cell
    assume r: "row \<in> set (g[nat cy := (g ! nat cy)[nat cx := v]])" and c: "cell \<in> set row"
    have "row \<in> set g \<or> (nat cy < length g \<and> row = (g ! nat cy)[nat cx := v])"
    proof (cases "nat cy < length g")
      case True
      with r set_update_subset_insert [of g "nat cy" "(g ! nat cy)[nat cx := v]"]
      show ?thesis by auto
    next
      case False
      with r show ?thesis by (simp add: list_update_beyond)
    qed
    then show "cell = 0 \<or> cell = 1"
    proof
      assume "row \<in> set g"
      with b c show ?thesis by (auto simp: bits_def)
    next
      assume a: "nat cy < length g \<and> row = (g ! nat cy)[nat cx := v]"
      with c have "cell = v \<or> cell \<in> set (g ! nat cy)"
        using set_update_subset_insert [of "g ! nat cy" "nat cx" v] by auto
      with a b v show ?thesis by (auto simp: bits_def)
    qed
  qed
qed

lemma commitment_Inr:
  assumes "generateBoardCommitment b s = Inr d"
  shows "length s \<le> 31"
proof (rule ccontr)
  assume "\<not> length s \<le> 31"
  then have "generateBoardCommitment b s = Inl Bytes32TooLong"
    by (simp add: generateBoardCommitment_def formatBytes32String_long)
  with assms show False by simp
qed

text \<open>
  What holds where a digest is returned: it depends on the grid and the salt only; the
  serialized board of a grid of ten rows of ten cells that are 0 or 1 is the row-major
  sequence of the 100 characters 0 or 1; with a collision-free hash, two such grids that
  differ give different digests, in particular after a change of a single cell, and two
  different salts of the same length give different digests.
\<close>

lemma commitment_sensitive:
  "(grid b = grid b' \<longrightarrow> generateBoardCommitment b s = generateBoardCommitment b' s)
   \<and> (wf10 (grid b) \<and> bits (grid b) \<longrightarrow>
        serializeBoard b = map bitChar (concat (grid b)) \<and> length (serializeBoard b) = 100)
   \<and> (generateBoardCommitment b s = Inr d \<and> wf10 (grid b) \<and> bits (grid b)
        \<and> wf10 (grid b') \<and> bits (grid b') \<and> grid b \<noteq> grid b' \<longrightarrow>
        generateBoardCommitment b' s \<noteq> Inr d)
   \<and> (generateBoardCommitment b s = Inr d \<and> wf10 (grid b) \<and> bits (grid b) \<and> inb (cx, cy)
        \<and> (v = 0 \<or> v = 1) \<and> v \<noteq> cellv (grid b) (cx, cy) \<longrightarrow>
        generateBoardCommitment (b\<lparr>grid := grid_set (grid b) cy cx v\<rparr>) s \<noteq> Inr d)
   \<and> (generateBoardCommitment b s = Inr d \<and> length s' = length s \<and> s' \<noteq> s \<longrightarrow>
        generateBoardCommitment b s' \<noteq> Inr d)"
proof (intro conjI impI)
  assume "grid b = grid b'"
  then show "generateBoardCommitment b s = generateBoardCommitment b' s"
    by (simp add: generateBoardCommitment_def serializeBoard_def)
next
  assume a: "wf10 (grid b) \<and> bits (grid b)"
  then show "serializeBoard b = map bitChar (concat (grid b))"
    by (simp add: serializeBoard_bits)
  with a show "length (serializeBoard b) = 100"
    by (simp add: length_concat_wf10)
next
  assume a: "generateBoardCommitment b s = Inr d \<and> wf10 (grid b) \<and> bits (grid b)
        \<and> wf10 (grid b') \<and> bits (grid b') \<and> grid b \<noteq> grid b'"
  then have l: "length s \<le> 31" using commitment_Inr [of b s d] by blast
  from a have "serializeBoard b' \<noteq> serializeBoard b"
    using serializeBoard_inj [of b' b] by metis
  with l have "generateBoardCommitment b' s \<noteq> generateBoardCommitment b s"
    by (simp add: commitment_eq_iff)
  with a show "generateBoardCommitment b' s \<noteq> Inr d" by simp
next
  assume a: "generateBoardCommitment b s = Inr d \<and> wf10 (grid b) \<and> bits (grid b) \<and> inb (cx, cy)
        \<and> (v = 0 \<or> v = 1) \<and> v \<noteq> cellv (grid b) (cx, cy)"
  then have l: "length s \<le> 31" using commitment_Inr [of b s d] by blast
  let ?b' = "b\<lparr>grid := grid_set (grid b) cy cx v\<rparr>"
  from a have w': "wf10 (grid ?b')" and b': "bits (grid ?b')"
    by (simp_all add: wf10_grid_set bits_grid_set)
  from a have "cellv (grid ?b') (cx, cy) = v"
    using cellv_grid_set [of "grid b" cx cy "(cx, cy)" v] by simp
  with a have "grid ?b' \<noteq> grid b" by auto
  with a w' b' have "serializeBoard ?b' \<noteq> serializeBoard b"
    using serializeBoard_inj [of ?b' b] by blast
  with l have "generateBoardCommitment ?b' s \<noteq> generateBoardCommitment b s"
    by (simp add: commitment_eq_iff)
  with a show "generateBoardCommitment ?b' s \<noteq> Inr d" by simp
next
  assume a: "generateBoardCommitment b s = Inr d \<and> length s' = length s \<and> s' \<noteq> s"
  then have l: "length s \<le> 31" "length s' \<le> 31" using commitment_Inr [of b s d] by auto
  from a have "s' @ replicate (32 - length s') (CHR 0x00) \<noteq> s @ replicate (32 - length s) (CHR 0x00)"
    by simp
  with l have "generateBoardCommitment b s' \<noteq> generateBoardCommitment b s"
    by (simp add: commitment_eq_iff)
  with a show "generateBoardCommitment b s' \<noteq> Inr d" by simp
qed

text \<open>
  C3: \<open>generateBoardCommitment\<close> returns no digest for the salt that \<open>generateSalt\<close>
  returns. The salt has 32 characters and the byte-string formatter accepts at most 31
  bytes, so the call throws on the board of the standard fleet, and on the same board
  with the cell \<open>(5, 0)\<close> set: there is no digest to compare. With a salt of six
  characters the digest is the hash of the serialized board followed by the padded salt.
\<close>

theorem generateBoardCommitment_fails_on_generated_salt:
  "generateSalt countingBytes = salt0 \<and> length salt0 = 32
   \<and> generateBoardCommitment board0 salt0 = Inl Bytes32TooLong
   \<and> generateBoardCommitment (board0\<lparr>grid := grid_set (grid board0) 0 5 1\<rparr>) salt0
       = Inl Bytes32TooLong
   \<and> generateBoardCommitment board0 ''s3cret'' =
       Inr (Keccak256 (serializeBoard board0 @ ''s3cret'' @ replicate 26 (CHR 0x00)))"
proof -
  have l: "length salt0 = 32" by (simp add: salt0_def)
  have lc: "length (countingBytes 16) = 16" by (simp add: countingBytes_def)
  have 1: "generateBoardCommitment board0 salt0 = Inl Bytes32TooLong"
    using generateBoardCommitment_generated_salt [of countingBytes board0] lc
    by (simp only: generateSalt_countingBytes)
  have 2: "generateBoardCommitment (board0\<lparr>grid := grid_set (grid board0) 0 5 1\<rparr>) salt0
       = Inl Bytes32TooLong"
    using generateBoardCommitment_generated_salt
      [of countingBytes "board0\<lparr>grid := grid_set (grid board0) 0 5 1\<rparr>"] lc
    by (simp only: generateSalt_countingBytes)
  have 3: "generateBoardCommitment board0 ''s3cret'' =
       Inr (Keccak256 (serializeBoard board0 @ ''s3cret'' @ replicate 26 (CHR 0x00)))"
    by code_simp
  from generateSalt_countingBytes l 1 2 3 show ?thesis by (intro conjI)
qed

section \<open>Shot history: results\<close>

text \<open>
  What the loop over the hit list computes when every hit is on the board: 100 entries,
  a 1 at index \<open>y * 10 + x\<close> exactly for the recorded hits \<open>(x, y)\<close>, a 0 elsewhere. It
  does not depend on the order or the multiplicity of the hits, and the miss list is not read.
\<close>

lemma js_array_set_in_range:
  "0 \<le> i \<Longrightarrow> nat i < length arr \<Longrightarrow> js_array_set arr i v = arr[nat i := Some v]"
  by (simp add: js_array_set_def)

lemma markShots_spec:
  assumes "length arr = 100" "\<forall>h \<in> set hs. inb h"
  shows "length (markShots arr hs) = 100
         \<and> (\<forall>cy < 10. \<forall>cx < 10. markShots arr hs ! (cy * 10 + cx) =
              (if (int cx, int cy) \<in> set hs then Some 1 else arr ! (cy * 10 + cx)))"
  using assms
proof (induction hs arbitrary: arr)
  case Nil
  then show ?case by simp
next
  case (Cons h hs)
  obtain hx hy where h: "h = (hx, hy)" by (cases h)
  from Cons.prems(2) have hb: "0 \<le> hx" "hx < 10" "0 \<le> hy" "hy < 10" unfolding h by auto
  then have i0: "0 \<le> hy * 10 + hx" and i1: "nat (hy * 10 + hx) < length arr"
    using Cons.prems(1) by auto
  have idx: "nat (hy * 10 + hx) = nat hy * 10 + nat hx"
    using hb by (simp add: nat_add_distrib nat_mult_distrib)
  let ?a1 = "arr[nat hy * 10 + nat hx := Some 1]"
  have step: "markShots arr (h # hs) = markShots ?a1 hs"
    unfolding h using js_array_set_in_range [OF i0 i1] by (simp add: idx)
  have l1: "length ?a1 = 100" using Cons.prems(1) by simp
  from Cons.prems(2) have r: "\<forall>h \<in> set hs. inb h" by simp
  note IH = Cons.IH [OF l1 r]
  have "markShots ?a1 hs ! (cy * 10 + cx) =
          (if (int cx, int cy) \<in> set (h # hs) then Some 1 else arr ! (cy * 10 + cx))"
    if b: "cy < 10" "cx < 10" for cy cx
  proof -
    have "(nat hy * 10 + nat hx) div 10 = nat hy" "(nat hy * 10 + nat hx) mod 10 = nat hx"
      "(cy * 10 + cx) div 10 = cy" "(cy * 10 + cx) mod 10 = cx"
      using hb b by simp_all
    then have "nat hy * 10 + nat hx = cy * 10 + cx \<longleftrightarrow> nat hy = cy \<and> nat hx = cx"
      by metis
    also have "\<dots> \<longleftrightarrow> (int cx, int cy) = (hx, hy)"
      using hb by auto
    finally have e: "nat hy * 10 + nat hx = cy * 10 + cx \<longleftrightarrow> (int cx, int cy) = (hx, hy)" .
    have lt: "cy * 10 + cx < length arr" using b Cons.prems(1) by simp
    from IH b have "markShots ?a1 hs ! (cy * 10 + cx) =
        (if (int cx, int cy) \<in> set hs then Some 1 else ?a1 ! (cy * 10 + cx))"
      by blast
    then show ?thesis
      unfolding h using e lt by (cases "(int cx, int cy) = (hx, hy)") (auto simp: nth_list_update)
  qed
  with IH step show ?case by simp
qed

lemma shotHistoryOf_hits:
  assumes "\<forall>h \<in> set (hits m). inb h"
  shows "length (shotHistoryOf m) = 100"
    and "cy < 10 \<Longrightarrow> cx < 10 \<Longrightarrow>
         shotHistoryOf m ! (cy * 10 + cx) = Some (if (int cx, int cy) \<in> set (hits m) then 1 else 0)"
proof -
  note S = markShots_spec [OF _ assms, of "replicate 100 (Some 0)"]
  from S show "length (shotHistoryOf m) = 100"
    by (simp add: shotHistoryOf_def)
  assume b: "cy < 10" "cx < 10"
  with S have "markShots (replicate 100 (Some 0)) (hits m) ! (cy * 10 + cx) =
      (if (int cx, int cy) \<in> set (hits m) then Some 1 else replicate 100 (Some 0) ! (cy * 10 + cx))"
    by simp
  with b show "shotHistoryOf m ! (cy * 10 + cx) = Some (if (int cx, int cy) \<in> set (hits m) then 1 else 0)"
    by (simp add: shotHistoryOf_def)
qed

lemma shotHistoryOf_order_independent:
  assumes "\<forall>h \<in> set (hits m). inb h" "set (hits m') = set (hits m)"
  shows "shotHistoryOf m' = shotHistoryOf m"
proof (rule nth_equalityI)
  from assms have b': "\<forall>h \<in> set (hits m'). inb h" by simp
  show "length (shotHistoryOf m') = length (shotHistoryOf m)"
    using shotHistoryOf_hits(1) [OF assms(1)] shotHistoryOf_hits(1) [OF b'] by simp
  fix k assume "k < length (shotHistoryOf m')"
  then have "k < 100" using shotHistoryOf_hits(1) [OF b'] by simp
  then have b: "k div 10 < 10" "k mod 10 < 10" by auto
  have kk: "k div 10 * 10 + k mod 10 = k" by simp
  from shotHistoryOf_hits(2) [OF assms(1) b] shotHistoryOf_hits(2) [OF b' b] assms(2)
  show "shotHistoryOf m' ! k = shotHistoryOf m ! k"
    unfolding kk by simp
qed

text \<open>
  C2: the bitmap built for the game-end proof marks the recorded hits only. On the board
  of the standard fleet, with all 17 ship cells recorded as hits and a miss recorded at
  \<open>(5, 0)\<close>, the game-end input is built and its shot history has a 0 at index 5: a cell
  that was fired upon is not marked.
\<close>

theorem shot_history_omits_misses:
  "(5, 0) \<in> set (misses shots17) \<and> checkAllShipsSunk board0 shots17
   \<and> shotHistoryOf shots17 ! (0 * 10 + 5) = Some 0
   \<and> (case gameEndInput board0 shots17 ''s3cret'' of
         Inl e \<Rightarrow> None
       | Inr input \<Rightarrow> Some (shot_history input ! (0 * 10 + 5))) = Some (Some 0)"
proof -
  have "(5, 0) \<in> set (misses shots17)" by code_simp
  moreover have "checkAllShipsSunk board0 shots17" by code_simp
  moreover have "shotHistoryOf shots17 ! (0 * 10 + 5) = Some 0" by code_simp
  moreover have "(case gameEndInput board0 shots17 ''s3cret'' of
         Inl e \<Rightarrow> None
       | Inr input \<Rightarrow> Some (shot_history input ! (0 * 10 + 5))) = Some (Some 0)"
    by code_simp
  ultimately show ?thesis by (intro conjI)
qed


section \<open>Game page: results\<close>

lemma phaseValue_le_5: "phaseValue ph \<le> 5"
  by (cases ph) simp_all

lemma applyEvent_phase:
  "gamePhase (applyEvent account st e) =
     (case e of
        board_submitted p a \<Rightarrow>
          if isAccount account p then WAITING_FOR_OPPONENT_BOARD
          else if a then PLAYING else gamePhase st
      | game_over w \<Rightarrow> GAME_OVER
      | _ \<Rightarrow> gamePhase st)"
  by (cases e) simp_all

text \<open>
  C8, as stated, fails: the handler of \<open>board_submitted\<close> writes the phase without looking
  at the current one. From the initial state an opponent's \<open>board_submitted\<close> with all
  boards submitted leads to \<open>PLAYING\<close>; a late \<open>board_submitted\<close> of the local player then
  moves the phase back to \<open>WAITING_FOR_OPPONENT_BOARD\<close>. The same event of the opponent
  moves \<open>GAME_OVER\<close> back to \<open>PLAYING\<close>.
\<close>

theorem stale_board_submitted_regresses:
  "gamePhase (processEvents (Some ''0xAB'') initialPageState [board_submitted ''0xcd'' True]) = PLAYING
   \<and> gamePhase (processEvents (Some ''0xAB'')
        (processEvents (Some ''0xAB'') initialPageState [board_submitted ''0xcd'' True])
        [board_submitted ''0xcd'' True, board_submitted ''0xab'' False]) = WAITING_FOR_OPPONENT_BOARD
   \<and> phaseValue WAITING_FOR_OPPONENT_BOARD < phaseValue PLAYING
   \<and> gamePhase (processEvents (Some ''0xAB'') (initialPageState\<lparr>gamePhase := GAME_OVER\<rparr>)
        [board_submitted ''0xcd'' True]) = PLAYING
   \<and> phaseValue PLAYING < phaseValue GAME_OVER"
  by code_simp

text \<open>
  C8 (amended): a \<open>board_submitted\<close> event sets the phase to
  \<open>WAITING_FOR_OPPONENT_BOARD\<close> when it is the local player's and to \<open>PLAYING\<close> when it is
  the opponent's with all boards submitted, whatever the phase was, and leaves it alone
  otherwise. Every other event (\<open>shot_fired\<close>, \<open>shot_result\<close>, \<open>game_over\<close>, any other type)
  and the empty event list never move the phase backward. So no event moves the phase
  backward as long as the phase is at most \<open>WAITING_FOR_OPPONENT_BOARD\<close>.
\<close>

theorem event_phase_steps:
  "(events \<noteq> [] \<and> last events = board_submitted p a \<longrightarrow>
      gamePhase (processEvents account st events) =
        (if isAccount account p then WAITING_FOR_OPPONENT_BOARD
         else if a then PLAYING else gamePhase st))
   \<and> (events = [] \<or> (\<forall>q b. last events \<noteq> board_submitted q b) \<longrightarrow>
        phaseValue (gamePhase st) \<le> phaseValue (gamePhase (processEvents account st events)))
   \<and> (phaseValue (gamePhase st) \<le> phaseValue WAITING_FOR_OPPONENT_BOARD \<longrightarrow>
        phaseValue (gamePhase st) \<le> phaseValue (gamePhase (processEvents account st events)))"
proof (intro conjI impI)
  assume "events \<noteq> [] \<and> last events = board_submitted p a"
  then show "gamePhase (processEvents account st events) =
        (if isAccount account p then WAITING_FOR_OPPONENT_BOARD
         else if a then PLAYING else gamePhase st)"
    by (simp add: processEvents_def)
next
  assume "events = [] \<or> (\<forall>q b. last events \<noteq> board_submitted q b)"
  then show "phaseValue (gamePhase st) \<le> phaseValue (gamePhase (processEvents account st events))"
    using phaseValue_le_5 [of "gamePhase st"]
    by (cases "last events") (auto simp: processEvents_def)
next
  assume "phaseValue (gamePhase st) \<le> phaseValue WAITING_FOR_OPPONENT_BOARD"
  then show "phaseValue (gamePhase st) \<le> phaseValue (gamePhase (processEvents account st events))"
    by (cases "last events") (auto simp: processEvents_def)
qed

theorem event_phase_steps_witness:
  "gamePhase (processEvents (Some ''0xAB'') initialPageState [board_submitted ''0xab'' False])
     = WAITING_FOR_OPPONENT_BOARD
   \<and> phaseValue (gamePhase (initialPageState\<lparr>gamePhase := PLAYING\<rparr>))
       \<le> phaseValue (gamePhase (processEvents (Some ''0xAB'') (initialPageState\<lparr>gamePhase := PLAYING\<rparr>)
            [shot_result ''0xab'' 1 2 True]))
   \<and> phaseValue (gamePhase initialPageState)
       \<le> phaseValue (gamePhase (processEvents (Some ''0xAB'') initialPageState [board_submitted ''0xcd'' True]))"
proof -
  have acc: "isAccount (Some ''0xAB'') ''0xab''"
    by code_simp
  have "gamePhase (processEvents (Some ''0xAB'') initialPageState [board_submitted ''0xab'' False])
     = WAITING_FOR_OPPONENT_BOARD"
    using event_phase_steps [of "[board_submitted ''0xab'' False]" "''0xab''" False "Some ''0xAB''" initialPageState]
      acc by simp
  moreover have "phaseValue (gamePhase (initialPageState\<lparr>gamePhase := PLAYING\<rparr>))
       \<le> phaseValue (gamePhase (processEvents (Some ''0xAB'') (initialPageState\<lparr>gamePhase := PLAYING\<rparr>)
            [shot_result ''0xab'' 1 2 True]))"
    using event_phase_steps [of "[shot_result ''0xab'' 1 2 True]" _ _ "Some ''0xAB''" "initialPageState\<lparr>gamePhase := PLAYING\<rparr>"]
    by simp
  moreover have "phaseValue (gamePhase initialPageState)
       \<le> phaseValue (gamePhase (processEvents (Some ''0xAB'') initialPageState [board_submitted ''0xcd'' True]))"
    using event_phase_steps [of "[board_submitted ''0xcd'' True]" _ _ "Some ''0xAB''" initialPageState]
    by (simp add: initialPageState_def)
  ultimately show ?thesis by (intro conjI)
qed


section \<open>Shot map: results\<close>

lemma addShot_hits: "hits (addShot m sx sy h) = (if h then hits m @ [(sx, sy)] else hits m)"
  by (simp add: addShot_def)

lemma addShot_misses: "misses (addShot m sx sy h) = (if h then misses m else misses m @ [(sx, sy)])"
  by (simp add: addShot_def)

text \<open>
  C1, as stated, fails: a second application of the same shot appends a second copy, and
  the maps reachable from the empty one include one with a coordinate in both lists.
\<close>

theorem addShot_not_idempotent:
  "addShot (addShot createEmptyShotMap 0 0 True) 0 0 True \<noteq> addShot createEmptyShotMap 0 0 True
   \<and> hits (addShot (addShot createEmptyShotMap 0 0 True) 0 0 True) = [(0, 0), (0, 0)]
   \<and> reachable (addShot (addShot createEmptyShotMap 0 0 True) 0 0 False)
   \<and> (0, 0) \<in> set (hits (addShot (addShot createEmptyShotMap 0 0 True) 0 0 False))
   \<and> (0, 0) \<in> set (misses (addShot (addShot createEmptyShotMap 0 0 True) 0 0 False))"
proof -
  have "reachable (addShot (addShot createEmptyShotMap 0 0 True) 0 0 False)"
    by (intro reachable.intros)
  then show ?thesis
    by (simp add: addShot_def createEmptyShotMap_def)
qed

text \<open>
  C1 (amended): \<open>addShot\<close> is append-only and does not de-duplicate. It appends the
  coordinate to the hit list when \<open>isHit\<close> and to the miss list otherwise and leaves the
  rest unchanged. Re-applying the same shot leaves the two lists unchanged as sets of
  coordinates. A map in which no coordinate is recorded twice or in both lists keeps that
  property exactly when the new coordinate was not recorded before.
\<close>

theorem addShot_append_only:
  "hits (addShot m sx sy h) = (if h then hits m @ [(sx, sy)] else hits m)
   \<and> misses (addShot m sx sy h) = (if h then misses m else misses m @ [(sx, sy)])
   \<and> set (hits (addShot (addShot m sx sy h) sx sy h)) = set (hits (addShot m sx sy h))
   \<and> set (misses (addShot (addShot m sx sy h) sx sy h)) = set (misses (addShot m sx sy h))
   \<and> (shotmap_inv m \<longrightarrow>
        (shotmap_inv (addShot m sx sy h) \<longleftrightarrow> (sx, sy) \<notin> set (hits m) \<union> set (misses m)))"
  by (auto simp: addShot_def shotmap_inv_def)

theorem addShot_append_only_witness:
  "shotmap_inv createEmptyShotMap
   \<and> shotmap_inv (addShot createEmptyShotMap 3 4 True)
   \<and> hits (addShot createEmptyShotMap 3 4 True) = [(3, 4)]
   \<and> \<not> shotmap_inv (addShot (addShot createEmptyShotMap 3 4 True) 3 4 False)"
proof -
  have e: "shotmap_inv createEmptyShotMap"
    by (simp add: shotmap_inv_def createEmptyShotMap_def)
  have a: "shotmap_inv (addShot createEmptyShotMap 3 4 True)"
    using addShot_append_only [of createEmptyShotMap 3 4 True] e
    by (simp add: createEmptyShotMap_def)
  have "\<not> shotmap_inv (addShot (addShot createEmptyShotMap 3 4 True) 3 4 False)"
    using addShot_append_only [of "addShot createEmptyShotMap 3 4 True" 3 4 False] a
    by (simp add: createEmptyShotMap_def addShot_def)
  with e a show ?thesis
    using addShot_append_only [of createEmptyShotMap 3 4 True]
    by (simp add: createEmptyShotMap_def)
qed

end
